theory Spec2Isabelle
  imports Main "HOL-Library.Sublist" "HOL-Library.AList" "HOL-Library.Multiset"
begin

section \<open>Print Sheets: strings\<close>

text \<open>
  The script runs under IronPython, whose strings are sequences of Unicode code units.
  A HOL \<open>char\<close> is a byte and cannot hold U+200E, so a string of the script is a list of
  code points, each a natural number. \<open>ustr\<close> writes an ASCII literal of the source.
\<close>

type_synonym ustring = "nat list"

definition ustr :: "string \<Rightarrow> ustring" where
  "ustr s = map of_char s"

text \<open>\<^verbatim>\<open>NPC\<close>: the one-character string holding U+200E, the Left-To-Right Mark.\<close>

definition NPC :: ustring where
  "NPC = [8206]"

text \<open>\<^verbatim>\<open>s * n\<close> on a string: \<open>n\<close> copies of \<open>s\<close>.\<close>

definition str_mul :: "ustring \<Rightarrow> nat \<Rightarrow> ustring" where
  "str_mul s n = concat (replicate n s)"

text \<open>
  \<^verbatim>\<open>s.replace(old, new)\<close>: every non-overlapping occurrence of \<open>old\<close>, found from the
  left, becomes \<open>new\<close>. With an empty \<open>old\<close> Python puts \<open>new\<close> before every character
  and at the end.
\<close>

function str_replace :: "ustring \<Rightarrow> ustring \<Rightarrow> ustring \<Rightarrow> ustring" where
  "str_replace old new [] = (if old = [] then new else [])"
| "str_replace old new (c # cs) =
     (if old = [] then new @ c # str_replace old new cs
      else if prefix old (c # cs)
        then new @ str_replace old new (drop (length old) (c # cs))
      else c # str_replace old new cs)"
  by pat_completeness auto
termination
  by (relation "measure (\<lambda>(old, new, s). length s)") auto

section \<open>The host document\<close>

text \<open>
  The script drives a document of the host application through the host's API. The
  document is modelled as a record of the state the script reads and writes: the sheet
  numbers (a store from the element id of a sheet to its \<open>SheetNumber\<close>), the fields of
  the document's print manager, the saved view-sheet sets, the print jobs submitted so
  far, and a trace of the host calls in the order the script makes them.

  A call of the host API is taken to succeed, except where the source itself handles its
  failure (the print manager that cannot be obtained, the \<open>SaveAs\<close> of the sheet set,
  the \<open>CombinedFile\<close> property): those failures are inputs of the model.
\<close>

datatype print_range = Select | Current | Visible

text \<open>What a submitted print job prints: one view, or the views of the current set.\<close>

datatype print_target = SingleView nat | CurrentSet "nat list"

text \<open>
  A submitted job, with what the host sees when \<open>SubmitPrint\<close> is called: the target, the
  output file name, the print setting in force and the sheet numbers at that moment.
\<close>

datatype job = Job print_target ustring "nat option" "nat \<Rightarrow> ustring"

fun job_target :: "job \<Rightarrow> print_target" where
  "job_target (Job t f p n) = t"

fun job_filename :: "job \<Rightarrow> ustring" where
  "job_filename (Job t f p n) = f"

fun job_setting :: "job \<Rightarrow> nat option" where
  "job_setting (Job t f p n) = p"

fun job_numbers :: "job \<Rightarrow> nat \<Rightarrow> ustring" where
  "job_numbers (Job t f p n) = n"

text \<open>The writes to the host the script performs, and the scopes it opens around them.\<close>

datatype host_call =
    SetCurrentPrintSetting
  | SelectNewPrintDriver
  | SetPrintRange
  | SetSheetNumber nat
  | SetCurrentViewSheetSet
  | DeleteViewSheetSet
  | SetViews
  | SaveAsViewSheetSet
  | SetPrintOrderReverse
  | SetCombinedFile
  | SetPrintToFile
  | SetPrintToFileName
  | ApplyPrintManager
  | SubmitPrint

datatype event =
    GroupEnter string
  | GroupExit
  | TransactionEnter string
  | TransactionExit
  | DryTransactionEnter string
  | DryTransactionExit
  | Call host_call

record document =
  sheets :: "nat list"
  SheetNumber :: "nat \<Rightarrow> ustring"
  IsLinked :: bool
  CurrentPrintSetting :: "nat option"
  PrinterName :: ustring
  PrintRange :: print_range
  PrintOrderReverse :: bool
  CombinedFile :: bool
  PrintToFile :: bool
  PrintToFileName :: ustring
  CurrentViewSheetSet :: "string option"
  Views :: "nat list"
  ViewSheetSets :: "string \<rightharpoonup> nat list"
  submitted :: "job list"
  trace :: "event list"

definition emit :: "event \<Rightarrow> document \<Rightarrow> document" where
  "emit e doc = doc\<lparr>trace := trace doc @ [e]\<rparr>"

text \<open>\<^verbatim>\<open>rvtsheet.SheetNumber = v\<close>\<close>

definition set_SheetNumber :: "nat \<Rightarrow> ustring \<Rightarrow> document \<Rightarrow> document" where
  "set_SheetNumber sheet v doc =
     emit (Call (SetSheetNumber sheet)) (doc\<lparr>SheetNumber := (SheetNumber doc)(sheet := v)\<rparr>)"

section \<open>Shift-click: cleaning up the sheet numbers\<close>

text \<open>
  \<^verbatim>\<open>
  def cleanup_sheetnumbers(doc):
      sheets = revit.query.get_sheets(doc=doc)
      with revit.Transaction('Cleanup Sheet Numbers', doc=doc):
          for sheet in sheets:
              sheet.SheetNumber = sheet.SheetNumber.replace(NPC, '')
  \<close>
\<close>

definition cleanup_step :: "document \<Rightarrow> nat \<Rightarrow> document" where
  "cleanup_step doc sheet =
     set_SheetNumber sheet (str_replace NPC [] (SheetNumber doc sheet)) doc"

definition cleanup_sheetnumbers :: "document \<Rightarrow> document" where
  "cleanup_sheetnumbers doc =
     emit TransactionExit
       (foldl cleanup_step (emit (TransactionEnter ''Cleanup Sheet Numbers'') doc)
          (sheets doc))"

text \<open>
  \<^verbatim>\<open>
  if __shiftclick__:
      docs = forms.select_open_docs()
      for doc in docs:
          cleanup_sheetnumbers(doc)
  \<close>
  The chosen documents are an input; each is cleaned in turn.
\<close>

definition shiftclick_main :: "document list \<Rightarrow> document list" where
  "shiftclick_main docs = map cleanup_sheetnumbers docs"

section \<open>The dialog\<close>

text \<open>
  \<^verbatim>\<open>PrintSettingListItem\<close>: an entry of the print-setting list. \<open>print_settings\<close> is the
  host's print setting (its element id), absent for the variable-paper entry, which alone
  answers \<open>True\<close> to \<open>allows_variable_paper\<close>.
\<close>

record PrintSettingListItem =
  print_settings :: "nat option"
  allows_variable_paper :: bool

text \<open>
  \<^verbatim>\<open>ViewSheetListItem\<close>: a row of the sheet list. It wraps a sheet of the document
  (\<open>revit_sheet\<close>, the element id) and holds the name, number and printable flag read
  when the row was built, the print index and the row's own print setting
  (\<open>sheet_print_settings\<close> is the source's \<open>print_settings\<close> property of the row).
\<close>

record ViewSheetListItem =
  revit_sheet :: nat
  name :: ustring
  number :: ustring
  printable :: bool
  print_index :: ustring
  sheet_print_settings :: "nat option"

text \<open>
  \<^verbatim>\<open>NamingParts\<close> and \<^verbatim>\<open>NamingFormat\<close>, the named tuples of a file naming format. The
  parts are, in order: index, index_spacer, number, number_spacer, name, ext.
\<close>

datatype NamingParts = NamingParts string string string string string string

record NamingFormat =
  parts :: NamingParts
  template :: string
  space :: string

text \<open>
  The state of the dialog the print routines read: the selections, the two check boxes,
  the sheet list and the rows selected in it, and \<open>_init_psettings\<close>.
\<close>

record window =
  selected_print_setting :: PrintSettingListItem
  selected_printer :: ustring
  selected_naming_format :: NamingFormat
  reverse_print :: bool
  combine_print :: bool
  sheet_list :: "ViewSheetListItem list"
  selected_sheets :: "ViewSheetListItem list"
  init_psettings :: "nat option"

text \<open>
  What the script gets from outside the document while it prints: whether
  \<open>_get_printmanager\<close> obtains a print manager, whether the host refuses the view-sheet
  set or the \<open>CombinedFile\<close> property, the answers given to the two alerts, and the
  library functions \<open>coreutils.cleanup_filename\<close> and \<open>os.path.join\<close> with the
  constant \<open>USER_DESKTOP\<close>, whose sources are not part of the script.
\<close>

datatype viewset_fault = NoFault | ViewsFault | SaveAsFault

record environment =
  has_print_manager :: bool
  viewset_fault :: viewset_fault
  combined_file_fault :: bool
  answer_only_selected :: bool
  answer_print_individually :: bool
  USER_DESKTOP :: ustring
  cleanup_filename :: "ustring \<Rightarrow> bool \<Rightarrow> ustring"
  op_join :: "ustring \<Rightarrow> ustring \<Rightarrow> ustring"

text \<open>
  The exceptions that leave a routine: the re-raised error of the view-sheet set,
  the \<open>SystemExit\<close> of \<open>script.exit()\<close>, the \<open>AttributeError\<close> of using the
  missing print manager, and the errors of \<open>str.format\<close> and of a dictionary lookup.
  Two values are the model's own and no exceptions of the script: \<open>Unsupported\<close> marks a
  replacement field with a conversion, a format specification or an attribute or index
  lookup, which the model of \<open>str.format\<close> does not interpret, and \<open>UnsupportedPattern\<close>
  a sheet number that the model of the regular expression does not read. A routine returns \<open>None\<close> when it completes and \<open>Some e\<close> when
  \<open>e\<close> is raised, together with the document as the routine left it; on a raise the
  scopes that were open have been left, and what the host rolls back then is not part of
  the model.
\<close>

datatype exc =
    ViewsetError | SystemExit | AttributeError
  | KeyError | ValueError | IndexError | Unsupported | UnsupportedPattern

section \<open>Calls of the host API\<close>

definition set_CurrentPrintSetting :: "nat option \<Rightarrow> document \<Rightarrow> document" where
  "set_CurrentPrintSetting v doc =
     emit (Call SetCurrentPrintSetting) (doc\<lparr>CurrentPrintSetting := v\<rparr>)"

definition do_SelectNewPrintDriver :: "ustring \<Rightarrow> document \<Rightarrow> document" where
  "do_SelectNewPrintDriver v doc =
     emit (Call SelectNewPrintDriver) (doc\<lparr>PrinterName := v\<rparr>)"

definition set_PrintRange :: "print_range \<Rightarrow> document \<Rightarrow> document" where
  "set_PrintRange v doc = emit (Call SetPrintRange) (doc\<lparr>PrintRange := v\<rparr>)"

definition set_PrintOrderReverse :: "bool \<Rightarrow> document \<Rightarrow> document" where
  "set_PrintOrderReverse v doc =
     emit (Call SetPrintOrderReverse) (doc\<lparr>PrintOrderReverse := v\<rparr>)"

definition set_CombinedFile :: "bool \<Rightarrow> document \<Rightarrow> document" where
  "set_CombinedFile v doc = emit (Call SetCombinedFile) (doc\<lparr>CombinedFile := v\<rparr>)"

definition set_PrintToFile :: "bool \<Rightarrow> document \<Rightarrow> document" where
  "set_PrintToFile v doc = emit (Call SetPrintToFile) (doc\<lparr>PrintToFile := v\<rparr>)"

definition set_PrintToFileName :: "ustring \<Rightarrow> document \<Rightarrow> document" where
  "set_PrintToFileName v doc =
     emit (Call SetPrintToFileName) (doc\<lparr>PrintToFileName := v\<rparr>)"

definition do_Apply :: "document \<Rightarrow> document" where
  "do_Apply doc = emit (Call ApplyPrintManager) doc"

text \<open>
  \<^verbatim>\<open>ViewSheetSetting.CurrentViewSheetSet = vss\<close> for a saved set: its views become the
  current ones.
\<close>

definition set_CurrentViewSheetSet :: "string \<Rightarrow> document \<Rightarrow> document" where
  "set_CurrentViewSheetSet nm doc =
     emit (Call SetCurrentViewSheetSet)
       (doc\<lparr>CurrentViewSheetSet := Some nm,
             Views := (case ViewSheetSets doc nm of Some vs \<Rightarrow> vs | None \<Rightarrow> Views doc)\<rparr>)"

text \<open>
  \<^verbatim>\<open>ViewSheetSetting.Delete()\<close> removes the current saved set; the current set is then
  the unsaved in-session one.
\<close>

definition do_Delete :: "document \<Rightarrow> document" where
  "do_Delete doc =
     emit (Call DeleteViewSheetSet)
       (case CurrentViewSheetSet doc of
          None \<Rightarrow> doc
        | Some nm \<Rightarrow> doc\<lparr>CurrentViewSheetSet := None,
                          ViewSheetSets := (ViewSheetSets doc)(nm := None)\<rparr>)"

text \<open>\<^verbatim>\<open>CurrentViewSheetSet.Views = sheet_set\<close>\<close>

definition set_Views :: "nat list \<Rightarrow> document \<Rightarrow> document" where
  "set_Views vs doc = emit (Call SetViews) (doc\<lparr>Views := vs\<rparr>)"

text \<open>\<^verbatim>\<open>ViewSheetSetting.SaveAs(name)\<close> saves the current views under the name.\<close>

definition do_SaveAs :: "string \<Rightarrow> document \<Rightarrow> document" where
  "do_SaveAs nm doc =
     emit (Call SaveAsViewSheetSet)
       (doc\<lparr>CurrentViewSheetSet := Some nm,
             ViewSheetSets := (ViewSheetSets doc)(nm \<mapsto> Views doc)\<rparr>)"

text \<open>
  \<^verbatim>\<open>print_mgr.SubmitPrint()\<close> prints what the print range selects: with
  \<open>PrintRange.Select\<close> the views of the current view-sheet set. The other ranges print a
  view the model does not track, so the job then names no sheet.
\<close>

definition do_SubmitPrint :: "document \<Rightarrow> document" where
  "do_SubmitPrint doc =
     emit (Call SubmitPrint)
       (doc\<lparr>submitted := submitted doc @
           [Job (CurrentSet (if PrintRange doc = Select then Views doc else []))
                (PrintToFileName doc) (CurrentPrintSetting doc) (SheetNumber doc)]\<rparr>)"

text \<open>\<^verbatim>\<open>print_mgr.SubmitPrint(view)\<close> prints the given view.\<close>

definition do_SubmitPrint_view :: "nat \<Rightarrow> document \<Rightarrow> document" where
  "do_SubmitPrint_view v doc =
     emit (Call SubmitPrint)
       (doc\<lparr>submitted := submitted doc @
           [Job (SingleView v) (PrintToFileName doc) (CurrentPrintSetting doc)
                (SheetNumber doc)]\<rparr>)"

text \<open>\<^verbatim>\<open>ViewSet.Insert\<close>: a view already in the set is not added again.\<close>

definition viewset_insert :: "nat \<Rightarrow> nat list \<Rightarrow> nat list" where
  "viewset_insert v vs = (if v \<in> set vs then vs else vs @ [v])"

section \<open>Printing the sheets into one file\<close>

text \<open>
  The loop of the transaction \<open>Fix Sheet Numbers\<close>:
  \<^verbatim>\<open>
  for idx, sheet in enumerate(target_sheets):
      rvtsheet = sheet.revit_sheet
      original_sheetnums.append(rvtsheet.SheetNumber)
      rvtsheet.SheetNumber = NPC * (idx + 1) + rvtsheet.SheetNumber
      if sheet.printable:
          sheet_set.Insert(rvtsheet)
  \<close>
  The state of the loop is the document, \<open>sheet_set\<close> and \<open>original_sheetnums\<close>.
\<close>

fun fix_sheet_numbers ::
  "nat \<Rightarrow> ViewSheetListItem list \<Rightarrow> document \<times> nat list \<times> ustring list \<Rightarrow>
   document \<times> nat list \<times> ustring list" where
  "fix_sheet_numbers idx [] st = st"
| "fix_sheet_numbers idx (sheet # rest) (doc, sheet_set, original_sheetnums) =
     fix_sheet_numbers (idx + 1) rest
       (set_SheetNumber (revit_sheet sheet)
          (str_mul NPC (idx + 1) @ SheetNumber doc (revit_sheet sheet)) doc,
        if printable sheet then viewset_insert (revit_sheet sheet) sheet_set else sheet_set,
        original_sheetnums @ [SheetNumber doc (revit_sheet sheet)])"

text \<open>
  The loop of the transaction \<open>Restore Sheet Numbers\<close>:
  \<^verbatim>\<open>
  for sheet, sheetnum in zip(target_sheets, original_sheetnums):
      rvtsheet = sheet.revit_sheet
      rvtsheet.SheetNumber = sheetnum
  \<close>
\<close>

fun restore_sheet_numbers ::
  "(ViewSheetListItem \<times> ustring) list \<Rightarrow> document \<Rightarrow> document" where
  "restore_sheet_numbers [] doc = doc"
| "restore_sheet_numbers ((sheet, sheetnum) # rest) doc =
     restore_sheet_numbers rest (set_SheetNumber (revit_sheet sheet) sheetnum doc)"

definition sheetsetname :: string where
  "sheetsetname = ''OrderedPrintSet''"

text \<open>The transaction \<open>Set Printer Settings\<close> of the combined print.\<close>

definition combined_set_printer_settings :: "window \<Rightarrow> document \<Rightarrow> document" where
  "combined_set_printer_settings self doc =
     emit TransactionExit
       (set_PrintRange Select
          (do_SelectNewPrintDriver (selected_printer self)
             (set_CurrentPrintSetting (print_settings (selected_print_setting self))
                (emit (TransactionEnter ''Set Printer Settings'') doc))))"

text \<open>The transaction \<open>Fix Sheet Numbers\<close>, giving the document, the view set and the
  original numbers.\<close>

definition combined_fix_sheet_numbers ::
  "ViewSheetListItem list \<Rightarrow> document \<Rightarrow> document \<times> nat list \<times> ustring list" where
  "combined_fix_sheet_numbers target_sheets doc =
     (case fix_sheet_numbers 0 target_sheets
             (emit (TransactionEnter ''Fix Sheet Numbers'') doc, [], []) of
        (doc', sheet_set, original_sheetnums) \<Rightarrow>
          (emit TransactionExit doc', sheet_set, original_sheetnums))"

text \<open>
  The transaction \<open>Remove Previous Print Set\<close>: a saved set named \<open>OrderedPrintSet\<close> is
  made current and deleted.
\<close>

definition combined_remove_previous :: "document \<Rightarrow> document" where
  "combined_remove_previous doc =
     emit TransactionExit
       (let doc' = emit (TransactionEnter ''Remove Previous Print Set'') doc in
        if ViewSheetSets doc sheetsetname \<noteq> None
        then do_Delete (set_CurrentViewSheetSet sheetsetname doc')
        else doc')"

text \<open>
  After the ordered print set is saved: the print job is configured and submitted, and
  the transaction \<open>Restore Sheet Numbers\<close> puts the original numbers back.
  \<open>CombinedFile = True\<close> may be refused by the host; the script then alerts the user and
  calls \<open>script.exit()\<close>. The output file is \<^verbatim>\<open>op.join(r'C:\\', 'Ordered Sheet Set.pdf')\<close>;
  the first argument is the four characters C, colon, backslash, backslash.
\<close>

definition combined_submit_and_restore ::
  "environment \<Rightarrow> window \<Rightarrow> ViewSheetListItem list \<Rightarrow> ustring list \<Rightarrow> document \<Rightarrow>
   exc option \<times> document" where
  "combined_submit_and_restore env self target_sheets original_sheetnums doc =
     (let doc1 = set_PrintOrderReverse (reverse_print self) doc in
      if combined_file_fault env then (Some SystemExit, emit GroupExit doc1)
      else
        (None,
         emit GroupExit
           (emit TransactionExit
              (restore_sheet_numbers (zip target_sheets original_sheetnums)
                 (emit (TransactionEnter ''Restore Sheet Numbers'')
                    (do_SubmitPrint
                       (do_Apply
                          (set_PrintToFileName
                             (op_join env [67, 58, 92, 92] (ustr ''Ordered Sheet Set.pdf''))
                             (set_PrintToFile True
                                (set_CombinedFile True doc1))))))))))"

text \<open>
  \<open>_print_combined_sheets_in_order\<close>. Without a print manager the routine returns at
  once, inside the transaction group. The transaction \<open>Update Ordered Print Set\<close> assigns
  the view set and saves it as \<open>OrderedPrintSet\<close>; when either call fails the error is
  logged and raised again.
\<close>

definition print_combined_sheets_in_order ::
  "environment \<Rightarrow> window \<Rightarrow> ViewSheetListItem list \<Rightarrow> document \<Rightarrow> exc option \<times> document" where
  "print_combined_sheets_in_order env self target_sheets doc =
     (let doc0 = emit (GroupEnter ''Print Sheets in Order'') doc in
      if \<not> has_print_manager env then (None, emit GroupExit doc0)
      else
        (case combined_fix_sheet_numbers target_sheets
                (combined_set_printer_settings self doc0) of
           (doc1, sheet_set, original_sheetnums) \<Rightarrow>
             (let doc2 = emit (TransactionEnter ''Update Ordered Print Set'')
                           (combined_remove_previous doc1) in
              case viewset_fault env of
                ViewsFault \<Rightarrow>
                  (Some ViewsetError, emit GroupExit (emit TransactionExit doc2))
              | SaveAsFault \<Rightarrow>
                  (Some ViewsetError,
                   emit GroupExit (emit TransactionExit (set_Views sheet_set doc2)))
              | NoFault \<Rightarrow>
                  combined_submit_and_restore env self target_sheets original_sheetnums
                    (emit TransactionExit
                       (do_SaveAs sheetsetname (set_Views sheet_set doc2))))))"

section \<open>File names of the sheets printed one by one\<close>

text \<open>
  \<^verbatim>\<open>template.format(index=..., number=..., name=...)\<close>, for a call with keyword
  arguments only. The template is read from the left: \<open>{{\<close> and \<open>}}\<close> stand for one
  brace, \<open>{field}\<close> is replaced by the argument of that name, a brace alone is a
  \<open>ValueError\<close>. An empty or numeric field asks for a positional argument, and there is
  none (\<open>IndexError\<close>); a name that is no keyword of the call is a \<open>KeyError\<close>. The
  arguments are strings, which \<open>format\<close> inserts as they are.
\<close>

definition lookup_field :: "(string \<rightharpoonup> ustring) \<Rightarrow> string \<Rightarrow> exc + ustring" where
  "lookup_field kwargs f =
     (if list_ex (\<lambda>c. c \<in> set ''!:.[]{'') f then Inl Unsupported
      else if list_all (\<lambda>c. c \<in> set ''0123456789'') f then Inl IndexError
      else (case kwargs f of None \<Rightarrow> Inl KeyError | Some v \<Rightarrow> Inr v))"

definition prepend :: "ustring \<Rightarrow> exc + ustring \<Rightarrow> exc + ustring" where
  "prepend pre r = (case r of Inl e \<Rightarrow> Inl e | Inr s \<Rightarrow> Inr (pre @ s))"

text \<open>
  The second argument is \<open>None\<close> in literal text and \<open>Some f\<close> inside a replacement
  field whose name read so far is \<open>f\<close>.
\<close>

fun format_scan :: "(string \<rightharpoonup> ustring) \<Rightarrow> string option \<Rightarrow> string \<Rightarrow> exc + ustring" where
  "format_scan kwargs None [] = Inr []"
| "format_scan kwargs (Some f) [] = Inl ValueError"
| "format_scan kwargs None (c # cs) =
     (if c = CHR ''{'' then
        (case cs of
           [] \<Rightarrow> Inl ValueError
         | c' # cs' \<Rightarrow>
             if c' = CHR ''{'' then prepend [of_char c] (format_scan kwargs None cs')
             else format_scan kwargs (Some []) cs)
      else if c = CHR ''}'' then
        (case cs of
           [] \<Rightarrow> Inl ValueError
         | c' # cs' \<Rightarrow>
             if c' = CHR ''}'' then prepend [of_char c] (format_scan kwargs None cs')
             else Inl ValueError)
      else prepend [of_char c] (format_scan kwargs None cs))"
| "format_scan kwargs (Some f) (c # cs) =
     (if c = CHR ''}'' then
        (case lookup_field kwargs f of
           Inl e \<Rightarrow> Inl e
         | Inr v \<Rightarrow> prepend v (format_scan kwargs None cs))
      else format_scan kwargs (Some (f @ [c])) cs)"

definition py_format :: "string \<Rightarrow> (string \<rightharpoonup> ustring) \<Rightarrow> exc + ustring" where
  "py_format tmpl kwargs = format_scan kwargs None tmpl"

text \<open>
  The file name of a sheet, as the two print routines compute it:
  \<^verbatim>\<open>
  output_fname = \
      coreutils.cleanup_filename(
          naming_fmt.template.format(
              index=sheet.print_index,
              number=sheet.number,
              name=sheet.name.replace(' ', naming_fmt.space)),
          windows_safe=True
          )
  \<close>
\<close>

definition output_fname ::
  "environment \<Rightarrow> NamingFormat \<Rightarrow> ViewSheetListItem \<Rightarrow> exc + ustring" where
  "output_fname env naming_fmt sheet =
     (case py_format (template naming_fmt)
             [''index'' \<mapsto> print_index sheet,
              ''number'' \<mapsto> number sheet,
              ''name'' \<mapsto> str_replace (ustr '' '') (ustr (space naming_fmt)) (name sheet)] of
        Inl e \<Rightarrow> Inl e
      | Inr s \<Rightarrow> Inr (cleanup_filename env s True))"

text \<open>\<open>_setup_naming_formats\<close>: the items of the naming format list, in the order of the source.\<close>

definition naming_formats :: "NamingFormat list" where
  "naming_formats =
     [\<lparr>parts = NamingParts ''0001'' '' '' ''A1.00'' '' '' ''1ST FLOOR PLAN'' ''.pdf'',
       template = ''{index} {number} {name}.pdf'', space = '' ''\<rparr>,
      \<lparr>parts = NamingParts ''0001'' ''_'' ''A1.00'' '' '' ''1ST FLOOR PLAN'' ''.pdf'',
       template = ''{index}_{number} {name}.pdf'', space = '' ''\<rparr>,
      \<lparr>parts = NamingParts ''0001'' '' '' ''A1.00'' ''_'' ''1ST FLOOR PLAN'' ''.pdf'',
       template = ''{index} {number}_{name}.pdf'', space = '' ''\<rparr>,
      \<lparr>parts = NamingParts ''0001'' ''_'' ''A1.00'' ''_'' ''1ST FLOOR PLAN'' ''.pdf'',
       template = ''{index}_{number}_{name}.pdf'', space = '' ''\<rparr>,
      \<lparr>parts = NamingParts ''0001'' ''_'' ''A1.00'' ''_'' ''1ST_FLOOR_PLAN'' ''.pdf'',
       template = ''{index}_{number}_{name}.pdf'', space = ''_''\<rparr>,
      \<lparr>parts = NamingParts ''0001'' '' '' ''A1.00'' [] [] ''.pdf'',
       template = ''{index} {number}.pdf'', space = '' ''\<rparr>,
      \<lparr>parts = NamingParts ''0001'' ''_'' ''A1.00'' [] [] ''.pdf'',
       template = ''{index}_{number}.pdf'', space = '' ''\<rparr>,
      \<lparr>parts = NamingParts ''0001'' '' '' [] [] ''1ST FLOOR PLAN'' ''.pdf'',
       template = ''{index} {name}.pdf'', space = '' ''\<rparr>,
      \<lparr>parts = NamingParts ''0001'' ''_'' [] [] ''1ST FLOOR PLAN'' ''.pdf'',
       template = ''{index}_{name}.pdf'', space = '' ''\<rparr>,
      \<lparr>parts = NamingParts ''0001'' ''_'' [] [] ''1ST_FLOOR_PLAN'' ''.pdf'',
       template = ''{index}_{name}.pdf'', space = ''_''\<rparr>]"

section \<open>Printing the sheets one by one\<close>

text \<open>
  The loop of \<open>_print_sheets_in_order\<close>:
  \<^verbatim>\<open>
  for sheet in target_sheets:
      if sheet.printable:
          output_fname = ...
          print_mgr.PrintToFileName = op.join(USER_DESKTOP, output_fname)
          if per_sheet_psettings:
              print_mgr.PrintSetup.CurrentPrintSetting = sheet.print_settings
          print_mgr.SubmitPrint(sheet.revit_sheet)
      else:
          logger.debug('Sheet %s is not printable. Skipping print.', sheet.number)
  \<close>
  An error of \<open>format\<close> leaves the loop.
\<close>

fun print_loop ::
  "environment \<Rightarrow> NamingFormat \<Rightarrow> bool \<Rightarrow> ViewSheetListItem list \<Rightarrow> document \<Rightarrow>
   exc option \<times> document" where
  "print_loop env naming_fmt per_sheet_psettings [] doc = (None, doc)"
| "print_loop env naming_fmt per_sheet_psettings (sheet # rest) doc =
     (if printable sheet then
        (case output_fname env naming_fmt sheet of
           Inl e \<Rightarrow> (Some e, doc)
         | Inr fname \<Rightarrow>
             print_loop env naming_fmt per_sheet_psettings rest
               (do_SubmitPrint_view (revit_sheet sheet)
                  ((if per_sheet_psettings
                    then set_CurrentPrintSetting (sheet_print_settings sheet)
                    else id)
                     (set_PrintToFileName (op_join env (USER_DESKTOP env) fname) doc))))
      else print_loop env naming_fmt per_sheet_psettings rest doc)"

text \<open>
  \<open>_print_sheets_in_order\<close>. The dry transaction \<open>Set Printer Settings\<close> spans the
  settings and the loop; what the host undoes when it ends is not part of the model (the
  jobs have been submitted by then).
\<close>

definition print_sheets_in_order ::
  "environment \<Rightarrow> window \<Rightarrow> ViewSheetListItem list \<Rightarrow> document \<Rightarrow> exc option \<times> document" where
  "print_sheets_in_order env self target_sheets doc =
     (if \<not> has_print_manager env then (None, doc)
      else
        (let per_sheet_psettings = allows_variable_paper (selected_print_setting self);
             doc1 = emit (DryTransactionEnter ''Set Printer Settings'')
                      (set_PrintToFile True doc);
             doc2 = (if \<not> per_sheet_psettings
                     then set_CurrentPrintSetting
                            (print_settings (selected_print_setting self)) doc1
                     else doc1);
             doc3 = set_PrintRange Current
                      (do_SelectNewPrintDriver (selected_printer self) doc2)
         in case print_loop env (selected_naming_format self) per_sheet_psettings
                   target_sheets doc3 of
              (r, doc4) \<Rightarrow> (r, emit DryTransactionExit doc4)))"

text \<open>
  The loop of \<open>_print_linked_sheets_in_order\<close>:
  \<^verbatim>\<open>
  for sheet in target_sheets:
      if sheet.printable:
          output_fname = ...
          print_mgr.PrintToFileName = op.join(USER_DESKTOP, output_fname)
          print_mgr.SubmitPrint(sheet.revit_sheet)
      else:
          logger.debug('Linked sheet %s is not printable. Skipping print.', sheet.number)
  \<close>
\<close>

fun print_linked_loop ::
  "environment \<Rightarrow> NamingFormat \<Rightarrow> ViewSheetListItem list \<Rightarrow> document \<Rightarrow>
   exc option \<times> document" where
  "print_linked_loop env naming_fmt [] doc = (None, doc)"
| "print_linked_loop env naming_fmt (sheet # rest) doc =
     (if printable sheet then
        (case output_fname env naming_fmt sheet of
           Inl e \<Rightarrow> (Some e, doc)
         | Inr fname \<Rightarrow>
             print_linked_loop env naming_fmt rest
               (do_SubmitPrint_view (revit_sheet sheet)
                  (set_PrintToFileName (op_join env (USER_DESKTOP env) fname) doc)))
      else print_linked_loop env naming_fmt rest doc)"

text \<open>
  \<open>_print_linked_sheets_in_order\<close>: no transaction is opened (the source notes that one
  cannot be opened on a linked document), the print setting is left alone.
\<close>

definition print_linked_sheets_in_order ::
  "environment \<Rightarrow> window \<Rightarrow> ViewSheetListItem list \<Rightarrow> document \<Rightarrow> exc option \<times> document" where
  "print_linked_sheets_in_order env self target_sheets doc =
     (if \<not> has_print_manager env then (None, doc)
      else
        print_linked_loop env (selected_naming_format self) target_sheets
          (set_PrintRange Current
             (do_SelectNewPrintDriver (selected_printer self)
                (set_PrintToFile True doc))))"

section \<open>The print button\<close>

text \<open>
  \<^verbatim>\<open>
  def _reset_psettings(self):
      if self._init_psettings:
          print_mgr = self._get_printmanager()
          print_mgr.PrintSetup.CurrentPrintSetting = self._init_psettings
  \<close>
\<close>

definition reset_psettings :: "environment \<Rightarrow> window \<Rightarrow> document \<Rightarrow> exc option \<times> document" where
  "reset_psettings env self doc =
     (case init_psettings self of
        None \<Rightarrow> (None, doc)
      | Some p \<Rightarrow>
          if \<not> has_print_manager env then (Some AttributeError, doc)
          else (None, set_CurrentPrintSetting (Some p) doc))"

text \<open>
  \<open>print_sheets\<close>, the handler of the print button. With an empty sheet list nothing
  happens. With rows selected the user is asked whether to print only those; when more
  than five sheets would be printed one by one the user is asked to confirm, and a
  refusal returns. Then the routine for the mode runs, and \<open>_reset_psettings\<close> after it
  unless the routine raised.
\<close>

definition print_sheets :: "environment \<Rightarrow> window \<Rightarrow> document \<Rightarrow> exc option \<times> document" where
  "print_sheets env self doc =
     (if sheet_list self = [] then (None, doc)
      else
        (let selected_only = (selected_sheets self \<noteq> [] \<and> answer_only_selected env);
             target_sheets = (if selected_only then selected_sheets self else sheet_list self)
         in if \<not> combine_print self \<and> length target_sheets > 5 \<and>
               \<not> answer_print_individually env
            then (None, doc)
            else
              (case (if combine_print self
                     then print_combined_sheets_in_order env self target_sheets doc
                     else if IsLinked doc
                     then print_linked_sheets_in_order env self target_sheets doc
                     else print_sheets_in_order env self target_sheets doc) of
                 (Some e, doc') \<Rightarrow> (Some e, doc')
               | (None, doc') \<Rightarrow> reset_psettings env self doc')))"

section \<open>Host calls and transaction scopes\<close>

text \<open>
  The calls of a trace that are made while no transaction is open. \<open>True\<close> as first
  argument counts a transaction group as a scope of its own, \<open>False\<close> counts only
  transactions and dry transactions. The number is the count of scopes open.
\<close>

fun unscoped :: "bool \<Rightarrow> nat \<Rightarrow> event list \<Rightarrow> host_call list" where
  "unscoped g d [] = []"
| "unscoped g d (GroupEnter n # es) = unscoped g (if g then Suc d else d) es"
| "unscoped g d (GroupExit # es) = unscoped g (if g then d - 1 else d) es"
| "unscoped g d (TransactionEnter n # es) = unscoped g (Suc d) es"
| "unscoped g d (TransactionExit # es) = unscoped g (d - 1) es"
| "unscoped g d (DryTransactionEnter n # es) = unscoped g (Suc d) es"
| "unscoped g d (DryTransactionExit # es) = unscoped g (d - 1) es"
| "unscoped g d (Call c # es) = (if d = 0 then c # unscoped g d es else unscoped g d es)"

text \<open>The calls that write a sheet number or change the saved view-sheet sets.\<close>

fun writes_sheets :: "host_call \<Rightarrow> bool" where
  "writes_sheets (SetSheetNumber s) = True"
| "writes_sheets SetCurrentViewSheetSet = True"
| "writes_sheets DeleteViewSheetSet = True"
| "writes_sheets SetViews = True"
| "writes_sheets SaveAsViewSheetSet = True"
| "writes_sheets c = False"

text \<open>The calls that set the printer settings: print setting, driver and range.\<close>

fun sets_printer :: "host_call \<Rightarrow> bool" where
  "sets_printer SetCurrentPrintSetting = True"
| "sets_printer SelectNewPrintDriver = True"
| "sets_printer SetPrintRange = True"
| "sets_printer c = False"

text \<open>The number of scopes open after a trace, counted as \<open>unscoped\<close> counts them.\<close>

fun scope_depth :: "bool \<Rightarrow> nat \<Rightarrow> event list \<Rightarrow> nat" where
  "scope_depth g d [] = d"
| "scope_depth g d (GroupEnter n # es) = scope_depth g (if g then Suc d else d) es"
| "scope_depth g d (GroupExit # es) = scope_depth g (if g then d - 1 else d) es"
| "scope_depth g d (TransactionEnter n # es) = scope_depth g (Suc d) es"
| "scope_depth g d (TransactionExit # es) = scope_depth g (d - 1) es"
| "scope_depth g d (DryTransactionEnter n # es) = scope_depth g (Suc d) es"
| "scope_depth g d (DryTransactionExit # es) = scope_depth g (d - 1) es"
| "scope_depth g d (Call c # es) = scope_depth g d es"

text \<open>
  The calls of a trace the claim about transactions speaks of, made with no transaction
  open (a transaction group alone does not count).
\<close>

definition unguarded :: "event list \<Rightarrow> host_call list" where
  "unguarded es = filter (\<lambda>c. writes_sheets c \<or> sets_printer c) (unscoped False 0 es)"

section \<open>The order of the marked numbers\<close>

text \<open>
  The module's note says that the marks make the host's print engine sort the sheets in
  the order of the index. The host's comparison is not part of the script; \<open>spec_ordinal_less\<close>
  is the comparison of two strings code point by code point, a shorter string before its
  extensions, under which the note is checked below.
\<close>

fun spec_ordinal_less :: "ustring \<Rightarrow> ustring \<Rightarrow> bool" where
  "spec_ordinal_less [] [] = False"
| "spec_ordinal_less [] (y # ys) = True"
| "spec_ordinal_less (x # xs) [] = False"
| "spec_ordinal_less (x # xs) (y # ys) = (x < y \<or> (x = y \<and> spec_ordinal_less xs ys))"

section \<open>A small document and dialog\<close>

text \<open>
  A document with three sheets, numbered A1, A2 and (with a mark left over from an
  earlier run) U+200E A3, and a sheet list of two rows: sheet 2, printable, and sheet 1,
  not printable. The theorems below are run on them.
\<close>

definition demo_doc :: document where
  "demo_doc =
     \<lparr>sheets = [1, 2, 3],
      SheetNumber = (\<lambda>_. [])(1 := ustr ''A1'', 2 := ustr ''A2'', 3 := 8206 # ustr ''A3''),
      IsLinked = False,
      CurrentPrintSetting = Some 7,
      PrinterName = ustr ''PDF'',
      PrintRange = Current,
      PrintOrderReverse = False,
      CombinedFile = False,
      PrintToFile = False,
      PrintToFileName = [],
      CurrentViewSheetSet = None,
      Views = [],
      ViewSheetSets = Map.empty,
      submitted = [],
      trace = []\<rparr>"

definition demo_targets :: "ViewSheetListItem list" where
  "demo_targets =
     [\<lparr>revit_sheet = 2, name = ustr ''FLOOR PLAN'', number = ustr ''A2'', printable = True,
       print_index = ustr ''0000'', sheet_print_settings = Some 8\<rparr>,
      \<lparr>revit_sheet = 1, name = ustr ''COVER'', number = ustr ''A1'', printable = False,
       print_index = ustr ''0001'', sheet_print_settings = None\<rparr>]"

definition demo_format :: NamingFormat where
  "demo_format =
     \<lparr>parts = NamingParts ''0001'' '' '' ''A1.00'' '' '' ''1ST FLOOR PLAN'' ''.pdf'',
      template = ''{index} {number} {name}.pdf'',
      space = '' ''\<rparr>"

definition demo_window :: window where
  "demo_window =
     \<lparr>selected_print_setting = \<lparr>print_settings = Some 9, allows_variable_paper = False\<rparr>,
      selected_printer = ustr ''PDF'',
      selected_naming_format = demo_format,
      reverse_print = False,
      combine_print = True,
      sheet_list = demo_targets,
      selected_sheets = [],
      init_psettings = Some 7\<rparr>"

definition demo_env :: environment where
  "demo_env =
     \<lparr>has_print_manager = True,
      viewset_fault = NoFault,
      combined_file_fault = False,
      answer_only_selected = False,
      answer_print_individually = True,
      USER_DESKTOP = ustr ''C:/Desktop'',
      cleanup_filename = (\<lambda>s windows_safe. s),
      op_join = (\<lambda>a b. a @ 92 # b)\<rparr>"

section \<open>The sheet index: reading the exported schedule\<close>

text \<open>
  Python's \<open>isspace\<close> on a Unicode character, and \<^verbatim>\<open>s.strip()\<close>, which removes the
  white space at both ends. U+200E is not white space.
\<close>

definition isspace :: "nat \<Rightarrow> bool" where
  "isspace c \<longleftrightarrow>
     (9 \<le> c \<and> c \<le> 13) \<or> (28 \<le> c \<and> c \<le> 32) \<or> c = 133 \<or> c = 160 \<or> c = 5760 \<or>
     c = 6158 \<or> (8192 \<le> c \<and> c \<le> 8202) \<or> c = 8232 \<or> c = 8233 \<or> c = 8239 \<or>
     c = 8287 \<or> c = 12288"

definition strip :: "ustring \<Rightarrow> ustring" where
  "strip s = rev (dropWhile isspace (rev (dropWhile isspace s)))"

text \<open>A record of the logger: the level and the message format.\<close>

datatype log_record = LogError string

text \<open>
  \<open>_get_schedule_text_data\<close>. The schedule is exported to a file by the host and read
  back:
  \<^verbatim>\<open>
  sched_data = []
  try:
      with codecs.open(schedule_data_file, 'r', 'utf_16_le') \
              as sched_data_file:
          return [x.strip() for x in sched_data_file.readlines()]
  except Exception as open_err:
      logger.error('Error opening sheet index export: %s | %s',
                   schedule_data_file, open_err)
      return sched_data
  \<close>
  The input of the model is what opening and reading the file gives: \<open>None\<close> when it
  raises, \<open>Some lines\<close> with the lines \<open>readlines()\<close> returns otherwise. The result is
  the returned list and the records logged.
\<close>

definition get_schedule_text_data :: "ustring list option \<Rightarrow> ustring list \<times> log_record list" where
  "get_schedule_text_data file =
     (case file of
        None \<Rightarrow> ([], [LogError ''Error opening sheet index export: %s | %s''])
      | Some lines \<Rightarrow> (map strip lines, []))"

section \<open>The sheet index: matching a sheet number against a line\<close>

text \<open>
  \<^verbatim>\<open>
  match_pattern = r'(^|.*\t){}(\t.*|$)'.format(sheet.SheetNumber)
  matches_sheet = re.match(match_pattern, data_line)
  \<close>
  The sheet number is put into the pattern as it is, so it is read as a regular
  expression. The model covers the numbers whose characters are ordinary ones, which
  stand for themselves, and the dot, which stands for any character but the line feed.
  A number with another special character of the regular expression syntax
  (\<^verbatim>\<open>^ $ * + ? { } [ ] \ | ( )\<close>) has no pattern in the model.
\<close>

datatype atom = Lit nat | AnyChar

definition regex_special :: "nat list" where
  "regex_special = [46, 94, 36, 42, 43, 63, 123, 125, 91, 93, 92, 124, 40, 41]"

fun number_atoms :: "ustring \<Rightarrow> atom list option" where
  "number_atoms [] = Some []"
| "number_atoms (c # cs) =
     (if c = 46 then map_option (Cons AnyChar) (number_atoms cs)
      else if c \<in> set regex_special then None
      else map_option (Cons (Lit c)) (number_atoms cs))"

text \<open>The atoms of the number matched at the start of a string; the result is the rest.\<close>

fun atoms_match :: "atom list \<Rightarrow> ustring \<Rightarrow> ustring option" where
  "atoms_match [] s = Some s"
| "atoms_match (a # as) [] = None"
| "atoms_match (Lit c # as) (x # xs) = (if x = c then atoms_match as xs else None)"
| "atoms_match (AnyChar # as) (x # xs) = (if x \<noteq> 10 then atoms_match as xs else None)"

text \<open>
  The group \<^verbatim>\<open>(\t.*|$)\<close> after the number: a tab follows (and \<^verbatim>\<open>.*\<close> takes what it
  can), or the string ends here, or only a final line feed is left.
\<close>

fun at_field_end :: "ustring \<Rightarrow> bool" where
  "at_field_end [] = True"
| "at_field_end (x # xs) = (x = 9 \<or> (x = 10 \<and> xs = []))"

definition match_here :: "atom list \<Rightarrow> ustring \<Rightarrow> bool" where
  "match_here p s = (case atoms_match p s of None \<Rightarrow> False | Some rest \<Rightarrow> at_field_end rest)"

text \<open>
  The group \<^verbatim>\<open>(^|.*\t)\<close> before the number: the number starts the string, or it follows
  a tab that \<^verbatim>\<open>.*\<close> can reach, which is a tab with no line feed before it.
  \<open>match_after_tab\<close> tries the number after every such tab.
\<close>

fun match_after_tab :: "atom list \<Rightarrow> ustring \<Rightarrow> bool" where
  "match_after_tab p [] = False"
| "match_after_tab p (x # xs) =
     (if x = 10 then False
      else (x = 9 \<and> match_here p xs) \<or> match_after_tab p xs)"

definition re_match_sheet :: "atom list \<Rightarrow> ustring \<Rightarrow> bool" where
  "re_match_sheet p line = (match_here p line \<or> match_after_tab p line)"

section \<open>The sheet index: ordering the sheets\<close>

text \<open>
  The inner loop of \<open>_order_sheets_by_schedule_data\<close> looks for the first line that
  matches and leaves at it:
  \<^verbatim>\<open>
  for line_no, data_line in enumerate(sched_data):
      ...
      if matches_sheet:
          ordered_sheets_dict[line_no] = sheet
          break
  \<close>
  \<open>find_line p n lines\<close> is the number of that line, the lines being numbered from \<open>n\<close>.
\<close>

fun find_line :: "atom list \<Rightarrow> nat \<Rightarrow> ustring list \<Rightarrow> nat option" where
  "find_line p n [] = None"
| "find_line p n (l # ls) = (if re_match_sheet p l then Some n else find_line p (Suc n) ls)"

text \<open>
  The outer loop, over the sheets. The dictionary from line numbers to sheets is an
  association list with one entry for a key; a later sheet replaces an earlier one at
  the same line. A sheet whose number has no pattern in the model ends the run with
  \<open>UnsupportedPattern\<close>.
\<close>

fun order_loop ::
  "document \<Rightarrow> ustring list \<Rightarrow> nat list \<Rightarrow> (nat \<times> nat) list \<Rightarrow> exc + (nat \<times> nat) list" where
  "order_loop doc sched_data [] ordered_sheets_dict = Inr ordered_sheets_dict"
| "order_loop doc sched_data (sheet # rest) ordered_sheets_dict =
     (case number_atoms (SheetNumber doc sheet) of
        None \<Rightarrow> Inl UnsupportedPattern
      | Some p \<Rightarrow>
          (case find_line p 0 sched_data of
             None \<Rightarrow> order_loop doc sched_data rest ordered_sheets_dict
           | Some line_no \<Rightarrow>
               order_loop doc sched_data rest
                 (AList.update line_no sheet ordered_sheets_dict)))"

text \<open>\<^verbatim>\<open>[ordered_sheets_dict[x] for x in sorted_keys]\<close>; a missing key is a \<open>KeyError\<close>.\<close>

fun lookup_all :: "(nat \<times> nat) list \<Rightarrow> nat list \<Rightarrow> exc + nat list" where
  "lookup_all d [] = Inr []"
| "lookup_all d (k # ks) =
     (case map_of d k of
        None \<Rightarrow> Inl KeyError
      | Some v \<Rightarrow> (case lookup_all d ks of Inl e \<Rightarrow> Inl e | Inr vs \<Rightarrow> Inr (v # vs)))"

text \<open>
  \<open>_order_sheets_by_schedule_data\<close>: the sheets (\<open>sheets_in\<close>, the source's
  \<open>sheet_list\<close>) are element ids of the document, whose numbers the loop reads; \<open>file\<close> is what reading the exported schedule gives.
\<close>

definition order_sheets_by_schedule_data ::
  "document \<Rightarrow> ustring list option \<Rightarrow> nat list \<Rightarrow> exc + nat list" where
  "order_sheets_by_schedule_data doc file sheets_in =
     (let sched_data = fst (get_schedule_text_data file) in
      if sched_data = [] then Inr sheets_in
      else
        (case order_loop doc sched_data sheets_in [] of
           Inl e \<Rightarrow> Inl e
         | Inr ordered_sheets_dict \<Rightarrow>
             lookup_all ordered_sheets_dict (sort (map fst ordered_sheets_dict))))"

text \<open>
  The first line of the schedule data that matches the number of a sheet, and whether
  there is one; \<open>None\<close> also for a number without a pattern in the model.
\<close>

definition first_match :: "document \<Rightarrow> ustring list \<Rightarrow> nat \<Rightarrow> nat option" where
  "first_match doc sched_data sheet =
     (case number_atoms (SheetNumber doc sheet) of
        None \<Rightarrow> None
      | Some p \<Rightarrow> find_line p 0 sched_data)"

definition matches_some_line :: "document \<Rightarrow> ustring list \<Rightarrow> nat \<Rightarrow> bool" where
  "matches_some_line doc sched_data sheet =
     (case number_atoms (SheetNumber doc sheet) of
        None \<Rightarrow> False
      | Some p \<Rightarrow> list_ex (re_match_sheet p) sched_data)"

section \<open>The ordering as the specification words it\<close>

text \<open>
  The specification speaks of the first line whose tab-delimited fields contain the
  number of the sheet. \<open>spec_fields\<close> are the fields of a line (\<^verbatim>\<open>line.split('\t')\<close>),
  \<open>spec_first_line num n lines\<close> the number of the first line with \<open>num\<close> among its
  fields, the lines being numbered from \<open>n\<close>. \<open>spec_arranged\<close> says that a list is an
  arrangement of the input sheets with the sheets that have such a line in ascending order
  of it. These three follow the words of the specification, not the source.
\<close>

fun spec_fields :: "ustring \<Rightarrow> ustring list" where
  "spec_fields [] = [] # []"
| "spec_fields (c # cs) =
     (if c = 9 then [] # spec_fields cs
      else (case spec_fields cs of [] \<Rightarrow> [c] # [] | f # fs \<Rightarrow> (c # f) # fs))"

fun spec_first_line :: "ustring \<Rightarrow> nat \<Rightarrow> ustring list \<Rightarrow> nat option" where
  "spec_first_line num n [] = None"
| "spec_first_line num n (l # ls) =
     (if num \<in> set (spec_fields l) then Some n else spec_first_line num (Suc n) ls)"

definition spec_line_of :: "document \<Rightarrow> ustring list \<Rightarrow> nat \<Rightarrow> nat option" where
  "spec_line_of doc sched_data sheet = spec_first_line (SheetNumber doc sheet) 0 sched_data"

definition spec_arranged :: "document \<Rightarrow> ustring list \<Rightarrow> nat list \<Rightarrow> nat list \<Rightarrow> bool" where
  "spec_arranged doc sched_data sheets_in out \<longleftrightarrow>
     mset out = mset sheets_in \<and>
     sorted_wrt (\<lambda>a b. case (spec_line_of doc sched_data a, spec_line_of doc sched_data b) of
                        (Some i, Some j) \<Rightarrow> i \<le> j
                      | _ \<Rightarrow> True) out"

text \<open>
  A sheet number is plain when it has no special character of the regular expression
  syntax and no tab: then the pattern is the number itself.
\<close>

definition plain_number :: "ustring \<Rightarrow> bool" where
  "plain_number num = list_all (\<lambda>c. c \<notin> set regex_special \<and> c \<noteq> 9) num"

text \<open>A document for the sheet index: sheets 1, 2 and 3 with the numbers A1, A2 and C9.\<close>

definition index_doc :: document where
  "index_doc =
     demo_doc\<lparr>SheetNumber := (\<lambda>_. [])(1 := ustr ''A1'', 2 := ustr ''A2'', 3 := ustr ''C9'')\<rparr>"

text \<open>
  Two exported sheet indices as \<open>readlines()\<close> returns them: one with a heading and a
  line for each of the sheets A2 and A1, and one whose only line has A1 and A2 in two of
  its fields.
\<close>

definition index_lines :: "ustring list option" where
  "index_lines =
     Some [ustr ''Sheet Number'' @ 9 # ustr ''Sheet Name'' @ [13, 10],
           ustr ''A2'' @ 9 # ustr ''Plan'' @ [13, 10],
           ustr ''A1'' @ 9 # ustr ''Cover'' @ [13, 10]]"

definition index_lines_shared :: "ustring list option" where
  "index_lines_shared = Some [ustr ''A1'' @ 9 # ustr ''A2'' @ [13, 10]]"

text \<open>The same document as a linked one, and the dialog without the combine option.\<close>

definition demo_linked_doc :: document where
  "demo_linked_doc = demo_doc\<lparr>IsLinked := True\<rparr>"

definition demo_window_single :: window where
  "demo_window_single = demo_window\<lparr>combine_print := False\<rparr>"

section \<open>Facts about the strings\<close>

lemma str_replace_char_empty:
  "str_replace [c] [] s = filter (\<lambda>x. x \<noteq> c) s"
  by (induction s) auto

lemma str_mul_NPC: "str_mul NPC n = replicate n 8206"
  by (induction n) (auto simp: str_mul_def NPC_def)

section \<open>Facts about the cleanup\<close>

lemma SheetNumber_emit [simp]: "SheetNumber (emit e doc) = SheetNumber doc"
  by (simp add: emit_def)

lemma sheets_emit [simp]: "sheets (emit e doc) = sheets doc"
  by (simp add: emit_def)

lemma sheets_cleanup_step [simp]: "sheets (cleanup_step doc s) = sheets doc"
  by (simp add: cleanup_step_def set_SheetNumber_def)

lemma sheets_foldl_cleanup [simp]: "sheets (foldl cleanup_step doc ss) = sheets doc"
  by (induction ss arbitrary: doc) auto

lemma SheetNumber_cleanup_step:
  "SheetNumber (cleanup_step doc s) x =
     (if x = s then filter (\<lambda>c. c \<noteq> 8206) (SheetNumber doc s) else SheetNumber doc x)"
  by (simp add: cleanup_step_def set_SheetNumber_def NPC_def str_replace_char_empty)

lemma SheetNumber_foldl_cleanup:
  "SheetNumber (foldl cleanup_step doc ss) x =
     (if x \<in> set ss then filter (\<lambda>c. c \<noteq> 8206) (SheetNumber doc x) else SheetNumber doc x)"
proof (induction ss arbitrary: doc)
  case Nil
  then show ?case by simp
next
  case (Cons s ss)
  show ?case
    by (simp add: Cons.IH SheetNumber_cleanup_step)
qed

lemma SheetNumber_cleanup:
  "SheetNumber (cleanup_sheetnumbers doc) x =
     (if x \<in> set (sheets doc) then filter (\<lambda>c. c \<noteq> 8206) (SheetNumber doc x)
      else SheetNumber doc x)"
  by (simp add: cleanup_sheetnumbers_def SheetNumber_foldl_cleanup)

lemma sheets_cleanup [simp]: "sheets (cleanup_sheetnumbers doc) = sheets doc"
  by (simp add: cleanup_sheetnumbers_def)

text \<open>
  C9. The shift-click cleanup gives every sheet of every chosen document its former
  number with every U+200E removed (no other code point is touched, no other element's
  number changes), and cleaning a second time changes no sheet number.
\<close>

theorem cleanup_removes_npc_idempotent:
  "length (shiftclick_main docs) = length docs \<and>
   (\<forall>i < length docs. \<forall>s \<in> set (sheets (docs ! i)).
      SheetNumber (shiftclick_main docs ! i) s =
        filter (\<lambda>c. c \<noteq> 8206) (SheetNumber (docs ! i) s)) \<and>
   (\<forall>i < length docs. \<forall>x. x \<notin> set (sheets (docs ! i)) \<longrightarrow>
      SheetNumber (shiftclick_main docs ! i) x = SheetNumber (docs ! i) x) \<and>
   map SheetNumber (shiftclick_main (shiftclick_main docs)) =
     map SheetNumber (shiftclick_main docs)"
  by (auto simp: shiftclick_main_def SheetNumber_cleanup)

theorem cleanup_removes_npc_idempotent_witness:
  "0 < length [demo_doc] \<and> 3 \<in> set (sheets ([demo_doc] ! 0)) \<and>
   4 \<notin> set (sheets ([demo_doc] ! 0)) \<and>
   SheetNumber (shiftclick_main [demo_doc] ! 0) 3 = ustr ''A3'' \<and>
   SheetNumber (shiftclick_main [demo_doc] ! 0) 4 = [] \<and>
   map SheetNumber (shiftclick_main (shiftclick_main [demo_doc])) =
     map SheetNumber (shiftclick_main [demo_doc])"
  using cleanup_removes_npc_idempotent [of "[demo_doc]"]
  by (simp add: demo_doc_def ustr_def)

section \<open>Facts about the combined print\<close>

lemmas host_call_defs = set_CurrentPrintSetting_def do_SelectNewPrintDriver_def set_PrintRange_def
  set_PrintOrderReverse_def set_CombinedFile_def set_PrintToFile_def set_PrintToFileName_def
  do_Apply_def set_CurrentViewSheetSet_def do_Delete_def set_Views_def do_SaveAs_def
  do_SubmitPrint_def do_SubmitPrint_view_def emit_def set_SheetNumber_def

lemma fix_sheet_numbers_originals:
  "distinct (map revit_sheet ts) \<Longrightarrow>
   snd (snd (fix_sheet_numbers idx ts (doc, ss, ons))) =
     ons @ map (\<lambda>t. SheetNumber doc (revit_sheet t)) ts"
proof (induction ts arbitrary: idx doc ss ons)
  case Nil
  then show ?case by simp
next
  case (Cons t ts)
  have "\<And>u. u \<in> set ts \<Longrightarrow> revit_sheet u \<noteq> revit_sheet t"
    using Cons.prems by (metis distinct.simps(2) image_eqI list.simps(9) set_map)
  then show ?case
    using Cons.prems by (simp add: Cons.IH set_SheetNumber_def)
qed

lemma fix_sheet_numbers_other:
  "x \<notin> revit_sheet ` set ts \<Longrightarrow>
   SheetNumber (fst (fix_sheet_numbers idx ts (doc, ss, ons))) x = SheetNumber doc x"
  by (induction ts arbitrary: idx doc ss ons) (auto simp: set_SheetNumber_def)

lemma fix_sheet_numbers_renamed:
  "distinct (map revit_sheet ts) \<Longrightarrow> i < length ts \<Longrightarrow>
   SheetNumber (fst (fix_sheet_numbers idx ts (doc, ss, ons))) (revit_sheet (ts ! i)) =
     replicate (idx + i + 1) 8206 @ SheetNumber doc (revit_sheet (ts ! i))"
proof (induction ts arbitrary: idx doc ss ons i)
  case Nil
  then show ?case by simp
next
  case (Cons t ts)
  show ?case
  proof (cases i)
    case 0
    have "revit_sheet t \<notin> revit_sheet ` set ts" using Cons.prems by auto
    then show ?thesis using 0
      by (simp add: fix_sheet_numbers_other set_SheetNumber_def str_mul_NPC)
  next
    case (Suc k)
    have "ts ! k \<in> set ts" using Cons.prems Suc by simp
    then have ne: "revit_sheet (ts ! k) \<noteq> revit_sheet t"
      using Cons.prems by (metis distinct.simps(2) image_eqI list.simps(9) set_map)
    have "distinct (map revit_sheet ts)" "k < length ts" using Cons.prems Suc by auto
    from Cons.IH[OF this] show ?thesis using Suc ne
      by (simp add: set_SheetNumber_def)
  qed
qed

lemma fix_sheet_numbers_set:
  "set (fst (snd (fix_sheet_numbers idx ts (doc, ss, ons)))) =
     set ss \<union> revit_sheet ` {t \<in> set ts. printable t}"
  by (induction ts arbitrary: idx doc ss ons) (auto simp: viewset_insert_def)

lemma fix_sheet_numbers_fields:
  "submitted (fst (fix_sheet_numbers idx ts (doc, ss, ons))) = submitted doc"
  by (induction ts arbitrary: idx doc ss ons) (auto simp: host_call_defs)

lemma fix_sheet_numbers_frame:
  "\<exists>sn tr. fst (fix_sheet_numbers idx ts (doc, ss, ons)) = doc\<lparr>SheetNumber := sn, trace := tr\<rparr>"
proof (induction ts arbitrary: idx doc ss ons)
  case Nil
  have "doc = doc\<lparr>SheetNumber := SheetNumber doc, trace := trace doc\<rparr>" by simp
  then show ?case by (metis fix_sheet_numbers.simps(1) fst_conv)
next
  case (Cons t ts)
  let ?d = "set_SheetNumber (revit_sheet t)
          (str_mul NPC (idx + 1) @ SheetNumber doc (revit_sheet t)) doc"
  obtain sn tr where "fst (fix_sheet_numbers (idx + 1) ts (?d,
        if printable t then viewset_insert (revit_sheet t) ss else ss,
        ons @ [SheetNumber doc (revit_sheet t)])) = ?d\<lparr>SheetNumber := sn, trace := tr\<rparr>"
    using Cons.IH by blast
  then have "fst (fix_sheet_numbers idx (t # ts) (doc, ss, ons)) = doc\<lparr>SheetNumber := sn, trace := tr\<rparr>"
    by (simp add: set_SheetNumber_def emit_def)
  then show ?case by blast
qed

lemma restore_other:
  "x \<notin> revit_sheet ` set (map fst zs) \<Longrightarrow>
   SheetNumber (restore_sheet_numbers zs doc) x = SheetNumber doc x"
  by (induction zs arbitrary: doc) (auto simp: set_SheetNumber_def)

lemma restore_at:
  "distinct (map revit_sheet (map fst zs)) \<Longrightarrow> (t, v) \<in> set zs \<Longrightarrow>
   SheetNumber (restore_sheet_numbers zs doc) (revit_sheet t) = v"
proof (induction zs arbitrary: doc)
  case Nil
  then show ?case by simp
next
  case (Cons z zs)
  obtain t' v' where z: "z = (t', v')" by (cases z)
  show ?case
  proof (cases "(t, v) = z")
    case True
    then have "revit_sheet t \<notin> revit_sheet ` set (map fst zs)"
      using Cons.prems z by auto
    then show ?thesis using True z by (simp add: restore_other set_SheetNumber_def)
  next
    case False
    then show ?thesis using Cons z by auto
  qed
qed

lemma restore_all:
  assumes "distinct (map revit_sheet ts)"
  shows "SheetNumber (restore_sheet_numbers
            (zip ts (map (\<lambda>t. f (revit_sheet t)) ts)) doc) x =
         (if x \<in> revit_sheet ` set ts then f x else SheetNumber doc x)"
proof (cases "x \<in> revit_sheet ` set ts")
  case True
  then obtain t where t: "t \<in> set ts" "x = revit_sheet t" by auto
  have m: "map fst (zip ts (map (\<lambda>t. f (revit_sheet t)) ts)) = ts"
    by (simp add: map_fst_zip)
  have "(t, f (revit_sheet t)) \<in> set (zip ts (map (\<lambda>t. f (revit_sheet t)) ts))"
    using t(1) by (auto simp: zip_map2 image_iff intro!: bexI[of _ "(t,t)"] simp: zip_same)
  then show ?thesis using restore_at[of "zip ts (map (\<lambda>t. f (revit_sheet t)) ts)" t "f (revit_sheet t)" doc] assms t m True
    by simp
next
  case False
  then show ?thesis
    using restore_other[of x "zip ts (map (\<lambda>t. f (revit_sheet t)) ts)" doc]
    by (simp add: map_fst_zip)
qed

lemma set_printer_settings_keeps [simp]:
  "SheetNumber (combined_set_printer_settings self doc) = SheetNumber doc"
  "submitted (combined_set_printer_settings self doc) = submitted doc"
  by (simp_all add: combined_set_printer_settings_def host_call_defs)

lemma remove_previous_keeps [simp]:
  "SheetNumber (combined_remove_previous doc) = SheetNumber doc"
  "submitted (combined_remove_previous doc) = submitted doc"
  by (simp_all add: combined_remove_previous_def host_call_defs Let_def split: option.splits)

lemma restore_submitted [simp]:
  "submitted (restore_sheet_numbers zs doc) = submitted doc"
  by (induction zs arbitrary: doc) (auto simp: host_call_defs)

lemma combined_fix_facts:
  assumes "combined_fix_sheet_numbers ts doc = (doc1, sheet_set, ons)"
  shows "\<exists>sn tr. doc1 = doc\<lparr>SheetNumber := sn, trace := tr\<rparr>"
    and "set sheet_set = revit_sheet ` {t \<in> set ts. printable t}"
    and "x \<notin> revit_sheet ` set ts \<Longrightarrow> SheetNumber doc1 x = SheetNumber doc x"
    and "distinct (map revit_sheet ts) \<Longrightarrow> ons = map (\<lambda>t. SheetNumber doc (revit_sheet t)) ts"
    and "distinct (map revit_sheet ts) \<Longrightarrow> i < length ts \<Longrightarrow>
         SheetNumber doc1 (revit_sheet (ts ! i)) =
           replicate (i + 1) 8206 @ SheetNumber doc (revit_sheet (ts ! i))"
proof -
  let ?d = "emit (TransactionEnter ''Fix Sheet Numbers'') doc"
  let ?r = "fix_sheet_numbers 0 ts (?d, [], [])"
  have r: "doc1 = emit TransactionExit (fst ?r)" "sheet_set = fst (snd ?r)" "ons = snd (snd ?r)"
    using assms by (auto simp: combined_fix_sheet_numbers_def split: prod.splits)
  obtain sn tr where "fst ?r = ?d\<lparr>SheetNumber := sn, trace := tr\<rparr>"
    using fix_sheet_numbers_frame[of 0 ts ?d "[]" "[]"] by blast
  then have "doc1 = doc\<lparr>SheetNumber := sn, trace := tr @ [TransactionExit]\<rparr>"
    by (simp add: r emit_def)
  then show "\<exists>sn tr. doc1 = doc\<lparr>SheetNumber := sn, trace := tr\<rparr>" by blast
  show "set sheet_set = revit_sheet ` {t \<in> set ts. printable t}"
    using fix_sheet_numbers_set[of 0 ts ?d "[]" "[]"] by (simp add: r)
  show "x \<notin> revit_sheet ` set ts \<Longrightarrow> SheetNumber doc1 x = SheetNumber doc x"
    using fix_sheet_numbers_other[of x ts 0 ?d "[]" "[]"] by (simp add: r)
  show "distinct (map revit_sheet ts) \<Longrightarrow> ons = map (\<lambda>t. SheetNumber doc (revit_sheet t)) ts"
    using fix_sheet_numbers_originals[of ts 0 ?d "[]" "[]"] by (simp add: r)
  show "distinct (map revit_sheet ts) \<Longrightarrow> i < length ts \<Longrightarrow>
         SheetNumber doc1 (revit_sheet (ts ! i)) =
           replicate (i + 1) 8206 @ SheetNumber doc (revit_sheet (ts ! i))"
    using fix_sheet_numbers_renamed[of ts i 0 ?d "[]" "[]"] by (simp add: r)
qed

text \<open>
  C2. When the combined print routine completes without raising, every sheet number of
  the document is what it was before the call: the restore loop undoes the marks of the
  rename loop. The rows of the target list wrap pairwise different sheets, as the rows
  of the dialog's sheet list do.
\<close>

theorem combined_print_restores_sheet_numbers:
  assumes "distinct (map revit_sheet target_sheets)"
      and "fst (print_combined_sheets_in_order env self target_sheets doc) = None"
  shows "SheetNumber (snd (print_combined_sheets_in_order env self target_sheets doc)) =
           SheetNumber doc"
proof (cases "has_print_manager env")
  case False
  then show ?thesis by (simp add: print_combined_sheets_in_order_def Let_def)
next
  case True
  let ?A = "combined_set_printer_settings self (emit (GroupEnter ''Print Sheets in Order'') doc)"
  obtain doc1 sheet_set ons where f: "combined_fix_sheet_numbers target_sheets ?A = (doc1, sheet_set, ons)"
    by (cases "combined_fix_sheet_numbers target_sheets ?A") auto
  have ons: "ons = map (\<lambda>t. SheetNumber doc (revit_sheet t)) target_sheets"
    using combined_fix_facts(4)[OF f assms(1)] by simp
  have other: "\<And>x. x \<notin> revit_sheet ` set target_sheets \<Longrightarrow> SheetNumber doc1 x = SheetNumber doc x"
    using combined_fix_facts(3)[OF f] by simp
  have nf: "viewset_fault env = NoFault" "\<not> combined_file_fault env"
    using assms(2) True f
    by (auto simp: print_combined_sheets_in_order_def Let_def combined_submit_and_restore_def
        split: viewset_fault.splits if_splits)
  have "SheetNumber (snd (print_combined_sheets_in_order env self target_sheets doc)) x =
           SheetNumber doc x" for x
    using True f nf other[of x] restore_all[OF assms(1), of "SheetNumber doc" _ x]
    by (simp add: print_combined_sheets_in_order_def Let_def combined_submit_and_restore_def
        ons host_call_defs)
  then show ?thesis by auto
qed

lemma combined_print_jobs:
  "\<exists>js. submitted (snd (print_combined_sheets_in_order env self target_sheets doc)) =
                submitted doc @ js \<and>
          length js = (if has_print_manager env \<and> viewset_fault env = NoFault \<and>
                          \<not> combined_file_fault env then 1 else 0) \<and>
          (\<forall>j \<in> set js.
             (\<exists>vs. job_target j = CurrentSet vs \<and>
                   set vs = revit_sheet ` {t \<in> set target_sheets. printable t}) \<and>
             (\<forall>x. x \<notin> revit_sheet ` set target_sheets \<longrightarrow> job_numbers j x = SheetNumber doc x) \<and>
             (distinct (map revit_sheet target_sheets) \<longrightarrow>
                (\<forall>idx < length target_sheets.
                   job_numbers j (revit_sheet (target_sheets ! idx)) =
                     replicate (idx + 1) 8206 @
                       SheetNumber doc (revit_sheet (target_sheets ! idx)))))"
proof (cases "has_print_manager env")
  case False
  then show ?thesis by (simp add: print_combined_sheets_in_order_def Let_def emit_def)
next
  case True
  let ?A = "combined_set_printer_settings self (emit (GroupEnter ''Print Sheets in Order'') doc)"
  obtain doc1 sheet_set ons where f: "combined_fix_sheet_numbers target_sheets ?A = (doc1, sheet_set, ons)"
    by (cases "combined_fix_sheet_numbers target_sheets ?A") auto
  obtain sn tr where fr: "doc1 = ?A\<lparr>SheetNumber := sn, trace := tr\<rparr>"
    using combined_fix_facts(1)[OF f] by blast
  have sub: "submitted doc1 = submitted doc" "PrintRange doc1 = Select"
    "CurrentPrintSetting doc1 = print_settings (selected_print_setting self)"
    by (simp_all add: fr combined_set_printer_settings_def host_call_defs)
  have vs: "set sheet_set = revit_sheet ` {t \<in> set target_sheets. printable t}"
    using combined_fix_facts(2)[OF f] by simp
  have other: "\<And>x. x \<notin> revit_sheet ` set target_sheets \<Longrightarrow> SheetNumber doc1 x = SheetNumber doc x"
    using combined_fix_facts(3)[OF f] by simp
  have ren: "\<And>i. distinct (map revit_sheet target_sheets) \<Longrightarrow> i < length target_sheets \<Longrightarrow>
         SheetNumber doc1 (revit_sheet (target_sheets ! i)) =
           replicate (i + 1) 8206 @ SheetNumber doc (revit_sheet (target_sheets ! i))"
    using combined_fix_facts(5)[OF f] by simp
  show ?thesis
  proof (cases "viewset_fault env = NoFault \<and> \<not> combined_file_fault env")
    case False
    then show ?thesis using True f sub
      by (cases "viewset_fault env")
         (auto simp: print_combined_sheets_in_order_def Let_def combined_submit_and_restore_def
            host_call_defs)
  next
    case nf: True
    let ?j = "Job (CurrentSet sheet_set)
                (op_join env [67, 58, 92, 92] (ustr ''Ordered Sheet Set.pdf''))
                (print_settings (selected_print_setting self)) (SheetNumber doc1)"
    have "submitted (snd (print_combined_sheets_in_order env self target_sheets doc)) =
            submitted doc @ [?j]"
      using True f nf sub
      by (simp add: print_combined_sheets_in_order_def Let_def combined_submit_and_restore_def
          host_call_defs combined_set_printer_settings_def combined_remove_previous_def)
    then show ?thesis using True nf ren other vs by auto
  qed
qed

section \<open>Facts about the file names and the sheets printed one by one\<close>

lemma str_replace_same: "str_replace [c] [c] s = s"
  by (induction s) auto

lemma str_replace_char_char:
  "str_replace [c] [d] s = map (\<lambda>x. if x = c then d else x) s"
  by (induction s) auto

lemma naming_formats_length: "length naming_formats = 10"
  by (simp add: naming_formats_def)

lemma naming_formats_output:
  "map (\<lambda>fmt. output_fname env fmt sheet) naming_formats =
     map (\<lambda>s. Inr (cleanup_filename env s True))
       [print_index sheet @ ustr '' '' @ number sheet @ ustr '' '' @ name sheet @ ustr ''.pdf'',
        print_index sheet @ ustr ''_'' @ number sheet @ ustr '' '' @ name sheet @ ustr ''.pdf'',
        print_index sheet @ ustr '' '' @ number sheet @ ustr ''_'' @ name sheet @ ustr ''.pdf'',
        print_index sheet @ ustr ''_'' @ number sheet @ ustr ''_'' @ name sheet @ ustr ''.pdf'',
        print_index sheet @ ustr ''_'' @ number sheet @ ustr ''_'' @
          map (\<lambda>c. if c = 32 then 95 else c) (name sheet) @ ustr ''.pdf'',
        print_index sheet @ ustr '' '' @ number sheet @ ustr ''.pdf'',
        print_index sheet @ ustr ''_'' @ number sheet @ ustr ''.pdf'',
        print_index sheet @ ustr '' '' @ name sheet @ ustr ''.pdf'',
        print_index sheet @ ustr ''_'' @ name sheet @ ustr ''.pdf'',
        print_index sheet @ ustr ''_'' @
          map (\<lambda>c. if c = 32 then 95 else c) (name sheet) @ ustr ''.pdf'']"
  by (simp add: naming_formats_def output_fname_def py_format_def lookup_field_def prepend_def ustr_def str_replace_same str_replace_char_char)


lemma print_loop_prefix:
  "\<exists>js. submitted (snd (print_loop env fmt ps ts doc)) = submitted doc @ js \<and>
        prefix (map job_target js) (map (\<lambda>s. SingleView (revit_sheet s)) (filter printable ts))"
proof (induction ts arbitrary: doc)
  case Nil
  then show ?case by simp
next
  case (Cons t ts)
  show ?case
  proof (cases "printable t")
    case False
    then show ?thesis using Cons.IH[of doc] by simp
  next
    case True
    show ?thesis
    proof (cases "output_fname env fmt t")
      case (Inl e)
      then show ?thesis using True by simp
    next
      case (Inr f)
      let ?d = "do_SubmitPrint_view (revit_sheet t)
                  ((if ps then set_CurrentPrintSetting (sheet_print_settings t) else id)
                     (set_PrintToFileName (op_join env (USER_DESKTOP env) f) doc))"
      obtain js where js: "submitted (snd (print_loop env fmt ps ts ?d)) = submitted ?d @ js"
        "prefix (map job_target js) (map (\<lambda>s. SingleView (revit_sheet s)) (filter printable ts))"
        using Cons.IH[of ?d] by blast
      obtain j where j: "submitted ?d = submitted doc @ [j]" "job_target j = SingleView (revit_sheet t)"
        by (cases ps) (simp_all add: host_call_defs)
      have "submitted (snd (print_loop env fmt ps (t # ts) doc)) = submitted doc @ (j # js)"
        using True Inr js(1) j(1) by simp
      moreover have "prefix (map job_target (j # js))
                 (map (\<lambda>s. SingleView (revit_sheet s)) (filter printable (t # ts)))"
        using True js(2) j(2) by simp
      ultimately show ?thesis by blast
    qed
  qed
qed

lemma print_loop_done:
  assumes "fst (print_loop env fmt ps ts doc) = None"
  shows "\<exists>js. submitted (snd (print_loop env fmt ps ts doc)) = submitted doc @ js \<and>
        list_all2 (\<lambda>j s. job_target j = SingleView (revit_sheet s) \<and>
                     (\<exists>f. output_fname env fmt s = Inr f \<and>
                          job_filename j = op_join env (USER_DESKTOP env) f))
          js (filter printable ts)"
  using assms
proof (induction ts arbitrary: doc)
  case Nil
  then show ?case by simp
next
  case (Cons t ts)
  show ?case
  proof (cases "printable t")
    case False
    then show ?thesis using Cons.IH[of doc] Cons.prems by simp
  next
    case True
    show ?thesis
    proof (cases "output_fname env fmt t")
      case (Inl e)
      then show ?thesis using True Cons.prems by simp
    next
      case (Inr f)
      let ?d = "do_SubmitPrint_view (revit_sheet t)
                  ((if ps then set_CurrentPrintSetting (sheet_print_settings t) else id)
                     (set_PrintToFileName (op_join env (USER_DESKTOP env) f) doc))"
      have "fst (print_loop env fmt ps ts ?d) = None"
        using Cons.prems True Inr by simp
      then obtain js where js: "submitted (snd (print_loop env fmt ps ts ?d)) = submitted ?d @ js"
        "list_all2 (\<lambda>j s. job_target j = SingleView (revit_sheet s) \<and>
                     (\<exists>f. output_fname env fmt s = Inr f \<and>
                          job_filename j = op_join env (USER_DESKTOP env) f))
          js (filter printable ts)"
        using Cons.IH[of ?d] by blast
      obtain j where j: "submitted ?d = submitted doc @ [j]" "job_target j = SingleView (revit_sheet t)"
        "job_filename j = op_join env (USER_DESKTOP env) f"
        by (cases ps) (simp_all add: host_call_defs)
      have "submitted (snd (print_loop env fmt ps (t # ts) doc)) = submitted doc @ (j # js)"
        using True Inr js(1) j(1) by simp
      moreover have "list_all2 (\<lambda>j s. job_target j = SingleView (revit_sheet s) \<and>
                     (\<exists>f. output_fname env fmt s = Inr f \<and>
                          job_filename j = op_join env (USER_DESKTOP env) f))
          (j # js) (filter printable (t # ts))"
        using True js(2) j(2,3) Inr by simp
      ultimately show ?thesis by blast
    qed
  qed
qed

lemma print_loop_returns:
  "(\<And>s. \<exists>f. output_fname env fmt s = Inr f) \<Longrightarrow> fst (print_loop env fmt ps ts doc) = None"
proof (induction ts arbitrary: doc)
  case Nil
  then show ?case by simp
next
  case (Cons t ts)
  obtain f where "output_fname env fmt t = Inr f" using Cons.prems by blast
  then show ?case using Cons.IH Cons.prems by simp
qed

lemma naming_formats_total:
  "fmt \<in> set naming_formats \<Longrightarrow> \<exists>f. output_fname env fmt s = Inr f"
proof -
  assume "fmt \<in> set naming_formats"
  then have "output_fname env fmt s \<in> set (map (\<lambda>fmt. output_fname env fmt s) naming_formats)"
    by simp
  then show ?thesis unfolding naming_formats_output by auto
qed

lemma print_linked_loop_eq:
  "print_linked_loop env fmt ts doc = print_loop env fmt False ts doc"
  by (induction ts arbitrary: doc) (auto split: sum.splits)

lemma print_sheets_in_order_loop:
  assumes "has_print_manager env"
  shows "\<exists>d. submitted d = submitted doc \<and>
             fst (print_sheets_in_order env self ts doc) =
               fst (print_loop env (selected_naming_format self)
                      (allows_variable_paper (selected_print_setting self)) ts d) \<and>
             submitted (snd (print_sheets_in_order env self ts doc)) =
               submitted (snd (print_loop env (selected_naming_format self)
                      (allows_variable_paper (selected_print_setting self)) ts d))"
proof -
  let ?d1 = "emit (DryTransactionEnter ''Set Printer Settings'') (set_PrintToFile True doc)"
  let ?d2 = "if \<not> allows_variable_paper (selected_print_setting self)
             then set_CurrentPrintSetting (print_settings (selected_print_setting self)) ?d1
             else ?d1"
  let ?d3 = "set_PrintRange Current (do_SelectNewPrintDriver (selected_printer self) ?d2)"
  have "submitted ?d3 = submitted doc" by (simp add: host_call_defs)
  moreover have "fst (print_sheets_in_order env self ts doc) =
               fst (print_loop env (selected_naming_format self)
                      (allows_variable_paper (selected_print_setting self)) ts ?d3)"
    using assms by (simp add: print_sheets_in_order_def Let_def split: prod.splits)
  moreover have "submitted (snd (print_sheets_in_order env self ts doc)) =
               submitted (snd (print_loop env (selected_naming_format self)
                      (allows_variable_paper (selected_print_setting self)) ts ?d3))"
    using assms by (simp add: print_sheets_in_order_def Let_def emit_def split: prod.splits)
  ultimately show ?thesis by blast
qed

lemma print_linked_sheets_in_order_loop:
  assumes "has_print_manager env"
  shows "\<exists>d. submitted d = submitted doc \<and>
             print_linked_sheets_in_order env self ts doc =
               print_loop env (selected_naming_format self) False ts d"
proof -
  let ?d = "set_PrintRange Current
             (do_SelectNewPrintDriver (selected_printer self) (set_PrintToFile True doc))"
  have "submitted ?d = submitted doc" by (simp add: host_call_defs)
  moreover have "print_linked_sheets_in_order env self ts doc =
               print_loop env (selected_naming_format self) False ts ?d"
    using assms by (simp add: print_linked_sheets_in_order_def print_linked_loop_eq)
  ultimately show ?thesis by blast
qed

lemma list_all2_targets:
  "list_all2 (\<lambda>j s. job_target j = SingleView (revit_sheet s) \<and> Q j s) js ss \<Longrightarrow>
   map job_target js = map (\<lambda>s. SingleView (revit_sheet s)) ss"
  by (induction js ss rule: list_all2_induct) auto

lemma individual_jobs:
  "\<exists>js. submitted (snd (print_sheets_in_order env self ts doc)) = submitted doc @ js \<and>
        prefix (map job_target js) (map (\<lambda>s. SingleView (revit_sheet s)) (filter printable ts)) \<and>
        (has_print_manager env \<and> fst (print_sheets_in_order env self ts doc) = None \<longrightarrow>
           list_all2 (\<lambda>j s. job_target j = SingleView (revit_sheet s) \<and>
                     (\<exists>f. output_fname env (selected_naming_format self) s = Inr f \<and>
                          job_filename j = op_join env (USER_DESKTOP env) f))
             js (filter printable ts))"
proof (cases "has_print_manager env")
  case False
  then show ?thesis by (simp add: print_sheets_in_order_def)
next
  case True
  let ?fmt = "selected_naming_format self"
  let ?ps = "allows_variable_paper (selected_print_setting self)"
  obtain d where d: "submitted d = submitted doc"
     "fst (print_sheets_in_order env self ts doc) = fst (print_loop env ?fmt ?ps ts d)"
     "submitted (snd (print_sheets_in_order env self ts doc)) =
        submitted (snd (print_loop env ?fmt ?ps ts d))"
    using print_sheets_in_order_loop[OF True] by blast
  show ?thesis
  proof (cases "fst (print_loop env ?fmt ?ps ts d) = None")
    case False
    then show ?thesis using print_loop_prefix[of env ?fmt ?ps ts d] d by auto
  next
    case n: True
    obtain js where js: "submitted (snd (print_loop env ?fmt ?ps ts d)) = submitted d @ js"
      "list_all2 (\<lambda>j s. job_target j = SingleView (revit_sheet s) \<and>
                     (\<exists>f. output_fname env ?fmt s = Inr f \<and>
                          job_filename j = op_join env (USER_DESKTOP env) f))
             js (filter printable ts)"
      using print_loop_done[OF n] by blast
    have "map job_target js = map (\<lambda>s. SingleView (revit_sheet s)) (filter printable ts)"
      using list_all2_targets[OF js(2)] .
    then show ?thesis using js d by auto
  qed
qed

lemma linked_jobs:
  "\<exists>js. submitted (snd (print_linked_sheets_in_order env self ts doc)) = submitted doc @ js \<and>
        prefix (map job_target js) (map (\<lambda>s. SingleView (revit_sheet s)) (filter printable ts)) \<and>
        (has_print_manager env \<and> fst (print_linked_sheets_in_order env self ts doc) = None \<longrightarrow>
           list_all2 (\<lambda>j s. job_target j = SingleView (revit_sheet s) \<and>
                     (\<exists>f. output_fname env (selected_naming_format self) s = Inr f \<and>
                          job_filename j = op_join env (USER_DESKTOP env) f))
             js (filter printable ts))"
proof (cases "has_print_manager env")
  case False
  then show ?thesis by (simp add: print_linked_sheets_in_order_def)
next
  case True
  let ?fmt = "selected_naming_format self"
  obtain d where d: "submitted d = submitted doc"
     "print_linked_sheets_in_order env self ts doc = print_loop env ?fmt False ts d"
    using print_linked_sheets_in_order_loop[OF True] by blast
  show ?thesis
  proof (cases "fst (print_loop env ?fmt False ts d) = None")
    case False
    then show ?thesis using print_loop_prefix[of env ?fmt False ts d] d by auto
  next
    case n: True
    obtain js where js: "submitted (snd (print_loop env ?fmt False ts d)) = submitted d @ js"
      "list_all2 (\<lambda>j s. job_target j = SingleView (revit_sheet s) \<and>
                     (\<exists>f. output_fname env ?fmt s = Inr f \<and>
                          job_filename j = op_join env (USER_DESKTOP env) f))
             js (filter printable ts)"
      using print_loop_done[OF n] by blast
    have "map job_target js = map (\<lambda>s. SingleView (revit_sheet s)) (filter printable ts)"
      using list_all2_targets[OF js(2)] .
    then show ?thesis using js d by auto
  qed
qed

lemma individual_returns:
  assumes "selected_naming_format self \<in> set naming_formats"
  shows "fst (print_sheets_in_order env self ts doc) = None"
    and "fst (print_linked_sheets_in_order env self ts doc) = None"
proof -
  have t: "\<And>s. \<exists>f. output_fname env (selected_naming_format self) s = Inr f"
    using naming_formats_total[OF assms] by blast
  show "fst (print_sheets_in_order env self ts doc) = None"
  proof (cases "has_print_manager env")
    case False
    then show ?thesis by (simp add: print_sheets_in_order_def)
  next
    case True
    then show ?thesis
      using print_sheets_in_order_loop[OF True, of doc self ts] print_loop_returns[OF t] by auto
  qed
  show "fst (print_linked_sheets_in_order env self ts doc) = None"
  proof (cases "has_print_manager env")
    case False
    then show ?thesis by (simp add: print_linked_sheets_in_order_def)
  next
    case True
    then show ?thesis
      using print_linked_sheets_in_order_loop[OF True, of doc self ts] print_loop_returns[OF t] by auto
  qed
qed

section \<open>The combined print: renaming and restoring\<close>



lemma demo_combined_returns:
  "fst (print_combined_sheets_in_order demo_env demo_window demo_targets demo_doc) = None"
  by (simp add: print_combined_sheets_in_order_def Let_def demo_env_def
      combined_submit_and_restore_def split: prod.splits)

theorem combined_print_restores_sheet_numbers_witness:
  "distinct (map revit_sheet demo_targets) \<and>
   fst (print_combined_sheets_in_order demo_env demo_window demo_targets demo_doc) = None \<and>
   SheetNumber (snd (print_combined_sheets_in_order demo_env demo_window demo_targets demo_doc)) =
     SheetNumber demo_doc"
proof -
  have d: "distinct (map revit_sheet demo_targets)" by (simp add: demo_targets_def)
  show ?thesis
    using combined_print_restores_sheet_numbers[OF d demo_combined_returns] d demo_combined_returns
    by blast
qed

section \<open>The file names\<close>

text \<open>
  C4. The naming format list has ten items. For each of them the file name of a sheet
  is \<open>cleanup_filename\<close>, called with \<open>windows_safe=True\<close>, of the template with the
  print index, the number and the name of the sheet put in, the spaces of the name
  replaced by the space character of the format. With one of the ten selected, both
  routines that print sheet by sheet complete, and the jobs they submit are, in order,
  one for each printable row, printed to that file name joined to the desktop folder.
\<close>

theorem naming_formats_export_filenames:
  "length naming_formats = 10 \<and>
   map (\<lambda>fmt. output_fname env fmt sheet) naming_formats =
     map (\<lambda>s. Inr (cleanup_filename env s True))
       [print_index sheet @ ustr '' '' @ number sheet @ ustr '' '' @ name sheet @ ustr ''.pdf'',
        print_index sheet @ ustr ''_'' @ number sheet @ ustr '' '' @ name sheet @ ustr ''.pdf'',
        print_index sheet @ ustr '' '' @ number sheet @ ustr ''_'' @ name sheet @ ustr ''.pdf'',
        print_index sheet @ ustr ''_'' @ number sheet @ ustr ''_'' @ name sheet @ ustr ''.pdf'',
        print_index sheet @ ustr ''_'' @ number sheet @ ustr ''_'' @
          map (\<lambda>c. if c = 32 then 95 else c) (name sheet) @ ustr ''.pdf'',
        print_index sheet @ ustr '' '' @ number sheet @ ustr ''.pdf'',
        print_index sheet @ ustr ''_'' @ number sheet @ ustr ''.pdf'',
        print_index sheet @ ustr '' '' @ name sheet @ ustr ''.pdf'',
        print_index sheet @ ustr ''_'' @ name sheet @ ustr ''.pdf'',
        print_index sheet @ ustr ''_'' @
          map (\<lambda>c. if c = 32 then 95 else c) (name sheet) @ ustr ''.pdf''] \<and>
   (selected_naming_format self \<in> set naming_formats \<and> has_print_manager env \<longrightarrow>
      fst (print_sheets_in_order env self ts doc) = None \<and>
      (\<exists>js. submitted (snd (print_sheets_in_order env self ts doc)) = submitted doc @ js \<and>
         list_all2 (\<lambda>j s. job_target j = SingleView (revit_sheet s) \<and>
                     (\<exists>f. output_fname env (selected_naming_format self) s = Inr f \<and>
                          job_filename j = op_join env (USER_DESKTOP env) f))
             js (filter printable ts)) \<and>
      fst (print_linked_sheets_in_order env self ts doc) = None \<and>
      (\<exists>js. submitted (snd (print_linked_sheets_in_order env self ts doc)) = submitted doc @ js \<and>
         list_all2 (\<lambda>j s. job_target j = SingleView (revit_sheet s) \<and>
                     (\<exists>f. output_fname env (selected_naming_format self) s = Inr f \<and>
                          job_filename j = op_join env (USER_DESKTOP env) f))
             js (filter printable ts)))"
proof (intro conjI impI)
  show "length naming_formats = 10" by (rule naming_formats_length)
  show "map (\<lambda>fmt. output_fname env fmt sheet) naming_formats =
     map (\<lambda>s. Inr (cleanup_filename env s True))
       [print_index sheet @ ustr '' '' @ number sheet @ ustr '' '' @ name sheet @ ustr ''.pdf'',
        print_index sheet @ ustr ''_'' @ number sheet @ ustr '' '' @ name sheet @ ustr ''.pdf'',
        print_index sheet @ ustr '' '' @ number sheet @ ustr ''_'' @ name sheet @ ustr ''.pdf'',
        print_index sheet @ ustr ''_'' @ number sheet @ ustr ''_'' @ name sheet @ ustr ''.pdf'',
        print_index sheet @ ustr ''_'' @ number sheet @ ustr ''_'' @
          map (\<lambda>c. if c = 32 then 95 else c) (name sheet) @ ustr ''.pdf'',
        print_index sheet @ ustr '' '' @ number sheet @ ustr ''.pdf'',
        print_index sheet @ ustr ''_'' @ number sheet @ ustr ''.pdf'',
        print_index sheet @ ustr '' '' @ name sheet @ ustr ''.pdf'',
        print_index sheet @ ustr ''_'' @ name sheet @ ustr ''.pdf'',
        print_index sheet @ ustr ''_'' @
          map (\<lambda>c. if c = 32 then 95 else c) (name sheet) @ ustr ''.pdf'']"
    by (rule naming_formats_output)
next
  assume a: "selected_naming_format self \<in> set naming_formats \<and> has_print_manager env"
  show "fst (print_sheets_in_order env self ts doc) = None"
    using individual_returns(1) a by blast
  show "fst (print_linked_sheets_in_order env self ts doc) = None"
    using individual_returns(2) a by blast
  show "\<exists>js. submitted (snd (print_sheets_in_order env self ts doc)) = submitted doc @ js \<and>
         list_all2 (\<lambda>j s. job_target j = SingleView (revit_sheet s) \<and>
                     (\<exists>f. output_fname env (selected_naming_format self) s = Inr f \<and>
                          job_filename j = op_join env (USER_DESKTOP env) f))
             js (filter printable ts)"
    using individual_jobs[of env self ts doc] individual_returns(1)[of self env ts doc] a by blast
  show "\<exists>js. submitted (snd (print_linked_sheets_in_order env self ts doc)) = submitted doc @ js \<and>
         list_all2 (\<lambda>j s. job_target j = SingleView (revit_sheet s) \<and>
                     (\<exists>f. output_fname env (selected_naming_format self) s = Inr f \<and>
                          job_filename j = op_join env (USER_DESKTOP env) f))
             js (filter printable ts)"
    using linked_jobs[of env self ts doc] individual_returns(2)[of self env ts doc] a by blast
qed

lemma demo_format_listed: "selected_naming_format demo_window \<in> set naming_formats"
  by (simp add: demo_window_def demo_format_def naming_formats_def)

lemma demo_output_fname:
  "output_fname demo_env demo_format (demo_targets ! 0) = Inr (ustr ''0000 A2 FLOOR PLAN.pdf'')"
  by (simp add: demo_env_def demo_format_def demo_targets_def output_fname_def py_format_def
      lookup_field_def prepend_def ustr_def str_replace_same)

theorem naming_formats_export_filenames_witness:
  "selected_naming_format demo_window \<in> set naming_formats \<and> has_print_manager demo_env \<and>
   map job_filename (submitted (snd (print_sheets_in_order demo_env demo_window demo_targets demo_doc)))
     = [ustr ''C:/Desktop'' @ 92 # ustr ''0000 A2 FLOOR PLAN.pdf'']"
proof -
  have h: "selected_naming_format demo_window \<in> set naming_formats \<and> has_print_manager demo_env"
    using demo_format_listed by (simp add: demo_env_def)
  obtain js where js:
    "submitted (snd (print_sheets_in_order demo_env demo_window demo_targets demo_doc)) =
       submitted demo_doc @ js"
    "list_all2 (\<lambda>j s. job_target j = SingleView (revit_sheet s) \<and>
                     (\<exists>f. output_fname demo_env (selected_naming_format demo_window) s = Inr f \<and>
                          job_filename j = op_join demo_env (USER_DESKTOP demo_env) f))
             js (filter printable demo_targets)"
    using naming_formats_export_filenames[of demo_env "demo_targets ! 0" demo_window demo_targets demo_doc] h
    by blast
  have fp: "filter printable demo_targets = [demo_targets ! 0]"
    by (simp add: demo_targets_def)
  obtain j where j: "js = [j]"
    "\<exists>f. output_fname demo_env (selected_naming_format demo_window) (demo_targets ! 0) = Inr f \<and>
         job_filename j = op_join demo_env (USER_DESKTOP demo_env) f"
    using js(2) unfolding fp by (auto simp: list_all2_Cons2)
  have "selected_naming_format demo_window = demo_format" by (simp add: demo_window_def)
  then have "job_filename j =
      op_join demo_env (USER_DESKTOP demo_env) (ustr ''0000 A2 FLOOR PLAN.pdf'')"
    using j(2) demo_output_fname by auto
  then have "job_filename j = ustr ''C:/Desktop'' @ 92 # ustr ''0000 A2 FLOOR PLAN.pdf''"
    by (simp add: demo_env_def)
  then show ?thesis using h js(1) j(1) by (simp add: demo_doc_def)
qed

section \<open>Printable and other rows\<close>

text \<open>
  C8. In every print mode only printable rows are printed. Printing sheet by sheet, in
  the document or in a linked one, submits one job for each printable row, in order, and
  none for the others (up to the row where an error stops the loop). The combined print
  submits at most one job, for a view set that holds exactly the sheets of the printable
  rows; in the numbers of that job every row, printable or not, carries its marks.
\<close>

theorem only_printable_sheets_are_printed:
  "(\<exists>js. submitted (snd (print_sheets_in_order env self ts doc)) = submitted doc @ js \<and>
        prefix (map job_target js) (map (\<lambda>s. SingleView (revit_sheet s)) (filter printable ts)) \<and>
        (has_print_manager env \<and> fst (print_sheets_in_order env self ts doc) = None \<longrightarrow>
           map job_target js = map (\<lambda>s. SingleView (revit_sheet s)) (filter printable ts))) \<and>
   (\<exists>js. submitted (snd (print_linked_sheets_in_order env self ts doc)) = submitted doc @ js \<and>
        prefix (map job_target js) (map (\<lambda>s. SingleView (revit_sheet s)) (filter printable ts)) \<and>
        (has_print_manager env \<and> fst (print_linked_sheets_in_order env self ts doc) = None \<longrightarrow>
           map job_target js = map (\<lambda>s. SingleView (revit_sheet s)) (filter printable ts))) \<and>
   (\<exists>js. submitted (snd (print_combined_sheets_in_order env self ts doc)) = submitted doc @ js \<and>
        length js = (if has_print_manager env \<and> viewset_fault env = NoFault \<and>
                        \<not> combined_file_fault env then 1 else 0) \<and>
        (\<forall>j \<in> set js.
           (\<exists>vs. job_target j = CurrentSet vs \<and>
                 set vs = revit_sheet ` {t \<in> set ts. printable t}) \<and>
           (distinct (map revit_sheet ts) \<longrightarrow>
              (\<forall>idx < length ts.
                 job_numbers j (revit_sheet (ts ! idx)) =
                   replicate (idx + 1) 8206 @ SheetNumber doc (revit_sheet (ts ! idx))))))"
proof (intro conjI)
  obtain js where js: "submitted (snd (print_sheets_in_order env self ts doc)) = submitted doc @ js"
    "prefix (map job_target js) (map (\<lambda>s. SingleView (revit_sheet s)) (filter printable ts))"
    "has_print_manager env \<and> fst (print_sheets_in_order env self ts doc) = None \<longrightarrow>
           list_all2 (\<lambda>j s. job_target j = SingleView (revit_sheet s) \<and>
                     (\<exists>f. output_fname env (selected_naming_format self) s = Inr f \<and>
                          job_filename j = op_join env (USER_DESKTOP env) f))
             js (filter printable ts)"
    using individual_jobs[of env self ts doc] by blast
  have "has_print_manager env \<and> fst (print_sheets_in_order env self ts doc) = None \<longrightarrow>
           map job_target js = map (\<lambda>s. SingleView (revit_sheet s)) (filter printable ts)"
  proof (intro impI)
    assume a: "has_print_manager env \<and> fst (print_sheets_in_order env self ts doc) = None"
    from js(3)[rule_format, OF a]
    show "map job_target js = map (\<lambda>s. SingleView (revit_sheet s)) (filter printable ts)"
      by (rule list_all2_targets)
  qed
  then show "\<exists>js. submitted (snd (print_sheets_in_order env self ts doc)) = submitted doc @ js \<and>
        prefix (map job_target js) (map (\<lambda>s. SingleView (revit_sheet s)) (filter printable ts)) \<and>
        (has_print_manager env \<and> fst (print_sheets_in_order env self ts doc) = None \<longrightarrow>
           map job_target js = map (\<lambda>s. SingleView (revit_sheet s)) (filter printable ts))"
    using js(1,2) by blast
next
  obtain js where js: "submitted (snd (print_linked_sheets_in_order env self ts doc)) = submitted doc @ js"
    "prefix (map job_target js) (map (\<lambda>s. SingleView (revit_sheet s)) (filter printable ts))"
    "has_print_manager env \<and> fst (print_linked_sheets_in_order env self ts doc) = None \<longrightarrow>
           list_all2 (\<lambda>j s. job_target j = SingleView (revit_sheet s) \<and>
                     (\<exists>f. output_fname env (selected_naming_format self) s = Inr f \<and>
                          job_filename j = op_join env (USER_DESKTOP env) f))
             js (filter printable ts)"
    using linked_jobs[of env self ts doc] by blast
  have "has_print_manager env \<and> fst (print_linked_sheets_in_order env self ts doc) = None \<longrightarrow>
           map job_target js = map (\<lambda>s. SingleView (revit_sheet s)) (filter printable ts)"
  proof (intro impI)
    assume a: "has_print_manager env \<and> fst (print_linked_sheets_in_order env self ts doc) = None"
    from js(3)[rule_format, OF a]
    show "map job_target js = map (\<lambda>s. SingleView (revit_sheet s)) (filter printable ts)"
      by (rule list_all2_targets)
  qed
  then show "\<exists>js. submitted (snd (print_linked_sheets_in_order env self ts doc)) = submitted doc @ js \<and>
        prefix (map job_target js) (map (\<lambda>s. SingleView (revit_sheet s)) (filter printable ts)) \<and>
        (has_print_manager env \<and> fst (print_linked_sheets_in_order env self ts doc) = None \<longrightarrow>
           map job_target js = map (\<lambda>s. SingleView (revit_sheet s)) (filter printable ts))"
    using js(1,2) by blast
next
  obtain js where js:
    "submitted (snd (print_combined_sheets_in_order env self ts doc)) = submitted doc @ js"
    "length js = (if has_print_manager env \<and> viewset_fault env = NoFault \<and>
                          \<not> combined_file_fault env then 1 else 0)"
    "\<forall>j \<in> set js.
             (\<exists>vs. job_target j = CurrentSet vs \<and>
                   set vs = revit_sheet ` {t \<in> set ts. printable t}) \<and>
             (\<forall>x. x \<notin> revit_sheet ` set ts \<longrightarrow> job_numbers j x = SheetNumber doc x) \<and>
             (distinct (map revit_sheet ts) \<longrightarrow>
                (\<forall>idx < length ts.
                   job_numbers j (revit_sheet (ts ! idx)) =
                     replicate (idx + 1) 8206 @ SheetNumber doc (revit_sheet (ts ! idx))))"
    using combined_print_jobs[of env self ts doc] by blast
  have "\<forall>j \<in> set js.
           (\<exists>vs. job_target j = CurrentSet vs \<and>
                 set vs = revit_sheet ` {t \<in> set ts. printable t}) \<and>
           (distinct (map revit_sheet ts) \<longrightarrow>
              (\<forall>idx < length ts.
                 job_numbers j (revit_sheet (ts ! idx)) =
                   replicate (idx + 1) 8206 @ SheetNumber doc (revit_sheet (ts ! idx))))"
    using js(3) by blast
  then show "\<exists>js. submitted (snd (print_combined_sheets_in_order env self ts doc)) = submitted doc @ js \<and>
        length js = (if has_print_manager env \<and> viewset_fault env = NoFault \<and>
                        \<not> combined_file_fault env then 1 else 0) \<and>
        (\<forall>j \<in> set js.
           (\<exists>vs. job_target j = CurrentSet vs \<and>
                 set vs = revit_sheet ` {t \<in> set ts. printable t}) \<and>
           (distinct (map revit_sheet ts) \<longrightarrow>
              (\<forall>idx < length ts.
                 job_numbers j (revit_sheet (ts ! idx)) =
                   replicate (idx + 1) 8206 @ SheetNumber doc (revit_sheet (ts ! idx)))))"
    using js(1,2) by blast
qed

lemma demo_individual_returns:
  "fst (print_sheets_in_order demo_env demo_window demo_targets demo_doc) = None"
  using individual_returns(1)[OF demo_format_listed] .

theorem only_printable_sheets_are_printed_witness:
  "has_print_manager demo_env \<and>
   fst (print_sheets_in_order demo_env demo_window demo_targets demo_doc) = None \<and>
   distinct (map revit_sheet demo_targets) \<and>
   \<not> printable (demo_targets ! 1) \<and>
   map job_target (submitted (snd (print_sheets_in_order demo_env demo_window demo_targets demo_doc)))
     = [SingleView 2] \<and>
   (\<exists>j vs. submitted (snd (print_combined_sheets_in_order demo_env demo_window demo_targets demo_doc))
           = [j] \<and> job_target j = CurrentSet vs \<and> set vs = {2} \<and>
         job_numbers j 1 = [8206, 8206] @ ustr ''A1'')"
proof -
  note t = only_printable_sheets_are_printed[of demo_env demo_window demo_targets demo_doc]
  have pm: "has_print_manager demo_env" by (simp add: demo_env_def)
  have d: "distinct (map revit_sheet demo_targets)" by (simp add: demo_targets_def)
  have np: "\<not> printable (demo_targets ! 1)" by (simp add: demo_targets_def)
  obtain js where js:
    "submitted (snd (print_sheets_in_order demo_env demo_window demo_targets demo_doc)) =
       submitted demo_doc @ js"
    "has_print_manager demo_env \<and>
       fst (print_sheets_in_order demo_env demo_window demo_targets demo_doc) = None \<longrightarrow>
       map job_target js = map (\<lambda>s. SingleView (revit_sheet s)) (filter printable demo_targets)"
    using t[THEN conjunct1] by blast
  have one: "map job_target (submitted (snd (print_sheets_in_order demo_env demo_window demo_targets demo_doc)))
     = [SingleView 2]"
    using js pm demo_individual_returns by (simp add: demo_doc_def demo_targets_def)
  obtain ks where ks:
    "submitted (snd (print_combined_sheets_in_order demo_env demo_window demo_targets demo_doc)) =
       submitted demo_doc @ ks"
    "length ks = (if has_print_manager demo_env \<and> viewset_fault demo_env = NoFault \<and>
                        \<not> combined_file_fault demo_env then 1 else 0)"
    "\<forall>j \<in> set ks.
           (\<exists>vs. job_target j = CurrentSet vs \<and>
                 set vs = revit_sheet ` {t \<in> set demo_targets. printable t}) \<and>
           (distinct (map revit_sheet demo_targets) \<longrightarrow>
              (\<forall>idx < length demo_targets.
                 job_numbers j (revit_sheet (demo_targets ! idx)) =
                   replicate (idx + 1) 8206 @ SheetNumber demo_doc (revit_sheet (demo_targets ! idx))))"
    using t[THEN conjunct2, THEN conjunct2] by blast
  have "length ks = 1" using ks(2) by (simp add: demo_env_def)
  then obtain j where j: "ks = [j]" by (cases ks) auto
  obtain vs where vs: "job_target j = CurrentSet vs"
     "set vs = revit_sheet ` {t \<in> set demo_targets. printable t}"
    using ks(3) j by auto
  have "revit_sheet ` {t \<in> set demo_targets. printable t} =
          set (map revit_sheet (filter printable demo_targets))"
    by auto
  also have "\<dots> = {2}" by (simp add: demo_targets_def)
  finally have "revit_sheet ` {t \<in> set demo_targets. printable t} = {2}" .
  then have vs2: "set vs = {2}" using vs(2) by simp
  have ren: "\<And>idx. idx < length demo_targets \<Longrightarrow>
          job_numbers j (revit_sheet (demo_targets ! idx)) =
            replicate (idx + 1) 8206 @ SheetNumber demo_doc (revit_sheet (demo_targets ! idx))"
    using ks(3) j d by simp
  have n1: "job_numbers j 1 = [8206, 8206] @ ustr ''A1''"
    using ren[of 1] by (simp add: demo_targets_def demo_doc_def numeral_2_eq_2)
  have s1: "submitted (snd (print_combined_sheets_in_order demo_env demo_window demo_targets demo_doc)) = [j]"
    using ks(1) j by (simp add: demo_doc_def)
  have ex: "\<exists>j vs. submitted (snd (print_combined_sheets_in_order demo_env demo_window demo_targets demo_doc))
           = [j] \<and> job_target j = CurrentSet vs \<and> set vs = {2} \<and>
         job_numbers j 1 = [8206, 8206] @ ustr ''A1''"
    using s1 vs(1) vs2 n1 by (intro exI[of _ j] exI[of _ vs] conjI)
  show ?thesis
    using pm demo_individual_returns d np one ex by (intro conjI)
qed

section \<open>Facts about the ordering loop\<close>

lemma find_line_range:
  "find_line p n ls = Some k \<Longrightarrow> n \<le> k \<and> k < n + length ls \<and> re_match_sheet p (ls ! (k - n))"
proof (induction ls arbitrary: n)
  case Nil
  then show ?case by simp
next
  case (Cons l ls)
  show ?case
  proof (cases "re_match_sheet p l")
    case True
    then show ?thesis using Cons.prems by simp
  next
    case False
    then have "find_line p (Suc n) ls = Some k" using Cons.prems by simp
    from Cons.IH[OF this] show ?thesis by (auto simp: nth_Cons' Suc_diff_le)
  qed
qed

lemma find_line_first:
  "find_line p n ls = Some k \<Longrightarrow> i < k - n \<Longrightarrow> \<not> re_match_sheet p (ls ! i)"
proof (induction ls arbitrary: n i)
  case Nil
  then show ?case by simp
next
  case (Cons l ls)
  show ?case
  proof (cases "re_match_sheet p l")
    case True
    then show ?thesis using Cons.prems by simp
  next
    case False
    then have f: "find_line p (Suc n) ls = Some k" using Cons.prems by simp
    show ?thesis
    proof (cases i)
      case 0
      then show ?thesis using False by simp
    next
      case (Suc j)
      have "j < k - Suc n" using Cons.prems(2) Suc by simp
      from Cons.IH[OF f this] show ?thesis using Suc by simp
    qed
  qed
qed

lemma find_line_None: "find_line p n ls = None \<longleftrightarrow> \<not> list_ex (re_match_sheet p) ls"
  by (induction ls arbitrary: n) auto

lemma find_line_Some: "(\<exists>k. find_line p n ls = Some k) \<longleftrightarrow> list_ex (re_match_sheet p) ls"
  using find_line_None[of p n ls] by auto

lemma first_match_matches:
  "first_match doc sched s \<noteq> None \<longleftrightarrow> matches_some_line doc sched s"
  using find_line_Some[of _ 0 sched]
  by (auto simp: first_match_def matches_some_line_def split: option.splits)

lemma first_match_bound:
  "first_match doc sched s = Some k \<Longrightarrow> k < length sched"
  using find_line_range[of _ 0 sched k]
  by (auto simp: first_match_def split: option.splits)

lemma order_loop_supported:
  "order_loop doc sched ss d = Inr d' \<Longrightarrow> \<forall>s \<in> set ss. number_atoms (SheetNumber doc s) \<noteq> None"
  by (induction ss arbitrary: d) (auto split: option.splits)

lemma order_loop_total:
  "\<forall>s \<in> set ss. number_atoms (SheetNumber doc s) \<noteq> None \<Longrightarrow> \<exists>d'. order_loop doc sched ss d = Inr d'"
  by (induction ss arbitrary: d) (auto split: option.splits)

lemma order_loop_distinct:
  "order_loop doc sched ss d = Inr d' \<Longrightarrow> distinct (map fst d) \<Longrightarrow> distinct (map fst d')"
  by (induction ss arbitrary: d) (auto split: option.splits simp: distinct_update)

lemma order_loop_map_of:
  "order_loop doc sched ss d = Inr d' \<Longrightarrow>
   map_of d' k =
     (if filter (\<lambda>s. first_match doc sched s = Some k) ss = [] then map_of d k
      else Some (last (filter (\<lambda>s. first_match doc sched s = Some k) ss)))"
proof (induction ss arbitrary: d)
  case Nil
  then show ?case by simp
next
  case (Cons s ss)
  obtain p where p: "number_atoms (SheetNumber doc s) = Some p"
    using Cons.prems by (auto split: option.splits)
  show ?case
  proof (cases "find_line p 0 sched")
    case None
    then have "order_loop doc sched ss d = Inr d'" using Cons.prems p by simp
    from Cons.IH[OF this] show ?thesis using None p by (simp add: first_match_def)
  next
    case (Some ln)
    then have "order_loop doc sched ss (AList.update ln s d) = Inr d'" using Cons.prems p by simp
    from Cons.IH[OF this] show ?thesis using Some p
      by (auto simp: first_match_def update_conv')
  qed
qed

lemma lookup_all_present:
  "set ks \<subseteq> fst ` set d \<Longrightarrow> lookup_all d ks = Inr (map (\<lambda>k. the (map_of d k)) ks)"
proof (induction ks)
  case Nil
  then show ?case by simp
next
  case (Cons k ks)
  then obtain v where "map_of d k = Some v"
    by (metis list.set_intros(1) map_of_eq_None_iff not_None_eq subsetD)
  then show ?case using Cons by simp
qed

lemma order_result:
  assumes "fst (get_schedule_text_data file) \<noteq> []"
      and "order_sheets_by_schedule_data doc file ss = Inr out"
  shows "\<exists>ks. sorted_wrt (<) ks \<and>
           set ks = {k. \<exists>s \<in> set ss. first_match doc (fst (get_schedule_text_data file)) s = Some k} \<and>
           out = map (\<lambda>k. last (filter (\<lambda>s. first_match doc (fst (get_schedule_text_data file)) s = Some k) ss)) ks"
proof -
  let ?sched = "fst (get_schedule_text_data file)"
  obtain d where d: "order_loop doc ?sched ss [] = Inr d"
    and l: "lookup_all d (sort (map fst d)) = Inr out"
    using assms by (auto simp: order_sheets_by_schedule_data_def Let_def split: sum.splits)
  let ?ks = "sort (map fst d)"
  have dist: "distinct (map fst d)" using order_loop_distinct[OF d] by simp
  have m: "\<And>k. map_of d k =
     (if filter (\<lambda>s. first_match doc ?sched s = Some k) ss = [] then None
      else Some (last (filter (\<lambda>s. first_match doc ?sched s = Some k) ss)))"
    using order_loop_map_of[OF d] by simp
  have keys: "set ?ks = {k. \<exists>s \<in> set ss. first_match doc ?sched s = Some k}"
  proof -
    have "set ?ks = dom (map_of d)" by (simp add: dom_map_of_conv_image_fst)
    also have "\<dots> = {k. filter (\<lambda>s. first_match doc ?sched s = Some k) ss \<noteq> []}"
      by (auto simp: dom_def m)
    also have "\<dots> = {k. \<exists>s \<in> set ss. first_match doc ?sched s = Some k}"
      by (auto simp: filter_empty_conv)
    finally show ?thesis .
  qed
  have st: "sorted_wrt (<) ?ks" using dist by (simp add: strict_sorted_iff)
  have "lookup_all d ?ks = Inr (map (\<lambda>k. the (map_of d k)) ?ks)"
    by (rule lookup_all_present) simp
  then have "out = map (\<lambda>k. the (map_of d k)) ?ks" using l by simp
  also have "\<dots> = map (\<lambda>k. last (filter (\<lambda>s. first_match doc ?sched s = Some k) ss)) ?ks"
  proof (rule map_cong[OF refl])
    fix k assume "k \<in> set ?ks"
    then have "filter (\<lambda>s. first_match doc ?sched s = Some k) ss \<noteq> []"
      unfolding keys by (auto simp: filter_empty_conv)
    then show "the (map_of d k) = last (filter (\<lambda>s. first_match doc ?sched s = Some k) ss)"
      by (simp add: m)
  qed
  finally show ?thesis using st keys by blast
qed

lemma order_total:
  assumes "\<forall>s \<in> set ss. number_atoms (SheetNumber doc s) \<noteq> None"
  shows "\<exists>out. order_sheets_by_schedule_data doc file ss = Inr out"
proof (cases "fst (get_schedule_text_data file) = []")
  case True
  then show ?thesis by (simp add: order_sheets_by_schedule_data_def)
next
  case False
  obtain d where d: "order_loop doc (fst (get_schedule_text_data file)) ss [] = Inr d"
    using order_loop_total[OF assms] by blast
  have "lookup_all d (sort (map fst d)) = Inr (map (\<lambda>k. the (map_of d k)) (sort (map fst d)))"
    by (rule lookup_all_present) simp
  then show ?thesis using False d by (simp add: order_sheets_by_schedule_data_def)
qed

section \<open>Plain numbers: the pattern and the fields of a line\<close>

lemma plain_number_atoms:
  "plain_number n \<Longrightarrow> number_atoms n = Some (map Lit n)"
  by (induction n) (auto simp: plain_number_def regex_special_def)

lemma atoms_match_Lit:
  "atoms_match (map Lit n) s = (if prefix n s then Some (drop (length n) s) else None)"
proof (induction n arbitrary: s)
  case Nil
  then show ?case by simp
next
  case (Cons c n)
  then show ?case by (cases s) auto
qed

lemma spec_fields_nonempty: "spec_fields s \<noteq> []"
  by (induction s) (auto split: list.splits)

lemma spec_fields_hd: "hd (spec_fields s) = takeWhile (\<lambda>c. c \<noteq> 9) s"
  by (induction s) (auto split: list.splits simp: spec_fields_nonempty)

lemma spec_fields_Cons:
  "spec_fields (c # cs) =
     (if c = 9 then [] # spec_fields cs
      else (c # hd (spec_fields cs)) # tl (spec_fields cs))"
  using spec_fields_nonempty[of cs] by (cases "spec_fields cs") auto

lemma at_field_end_no_lf:
  "10 \<notin> set r \<Longrightarrow> at_field_end r \<longleftrightarrow> (r = [] \<or> hd r = 9)"
  by (cases r) auto

lemma match_here_Lit:
  assumes "9 \<notin> set n" and "10 \<notin> set s"
  shows "match_here (map Lit n) s \<longleftrightarrow> n = takeWhile (\<lambda>c. c \<noteq> 9) s"
proof
  assume "match_here (map Lit n) s"
  then have p: "prefix n s" and e: "at_field_end (drop (length n) s)"
    by (auto simp: match_here_def atoms_match_Lit split: if_splits)
  obtain r where r: "s = n @ r" using p by (auto simp: prefix_def)
  have "10 \<notin> set r" using assms(2) r by simp
  then have "r = [] \<or> hd r = 9" using e r by (simp add: at_field_end_no_lf)
  then have "takeWhile (\<lambda>c. c \<noteq> 9) r = []" by (cases r) auto
  moreover have "takeWhile (\<lambda>c. c \<noteq> 9) (n @ r) = n @ takeWhile (\<lambda>c. c \<noteq> 9) r"
    by (rule takeWhile_append2) (use assms(1) in auto)
  ultimately show "n = takeWhile (\<lambda>c. c \<noteq> 9) s"
    using r by simp
next
  assume n: "n = takeWhile (\<lambda>c. c \<noteq> 9) s"
  let ?r = "dropWhile (\<lambda>c. c \<noteq> 9) s"
  have s: "s = n @ ?r" using n by simp
  then have p: "prefix n s" by (metis prefixI)
  have d: "drop (length n) s = ?r" using s by (metis append_eq_conv_conj)
  have "?r = [] \<or> hd ?r = 9" using hd_dropWhile[of "\<lambda>c. c \<noteq> 9" s] by auto
  moreover have "10 \<notin> set ?r" using assms(2) by (meson set_dropWhileD)
  ultimately have "at_field_end ?r" by (simp add: at_field_end_no_lf)
  then show "match_here (map Lit n) s"
    using p d by (simp add: match_here_def atoms_match_Lit)
qed

lemma match_after_tab_Lit:
  assumes "9 \<notin> set n"
  shows "10 \<notin> set s \<Longrightarrow> match_after_tab (map Lit n) s \<longleftrightarrow> n \<in> set (tl (spec_fields s))"
proof (induction s)
  case Nil
  then show ?case by simp
next
  case (Cons x xs)
  have lf: "10 \<notin> set xs" "x \<noteq> 10" using Cons.prems by auto
  have ih: "match_after_tab (map Lit n) xs \<longleftrightarrow> n \<in> set (tl (spec_fields xs))"
    using Cons.IH lf by simp
  have here: "match_here (map Lit n) xs \<longleftrightarrow> n = hd (spec_fields xs)"
    using match_here_Lit[OF assms lf(1)] by (simp add: spec_fields_hd)
  have sp: "set (spec_fields xs) = insert (hd (spec_fields xs)) (set (tl (spec_fields xs)))"
    using spec_fields_nonempty[of xs] by (cases "spec_fields xs") auto
  show ?case
  proof (cases "x = 9")
    case True
    then show ?thesis using lf ih here sp
      by (auto simp: spec_fields_Cons simp del: spec_fields.simps)
  next
    case False
    then show ?thesis using lf ih
      by (simp add: spec_fields_Cons del: spec_fields.simps)
  qed
qed

lemma re_match_sheet_Lit:
  assumes "9 \<notin> set n" and "10 \<notin> set s"
  shows "re_match_sheet (map Lit n) s \<longleftrightarrow> n \<in> set (spec_fields s)"
proof -
  have sp: "set (spec_fields s) = insert (hd (spec_fields s)) (set (tl (spec_fields s)))"
    using spec_fields_nonempty[of s] by (cases "spec_fields s") auto
  show ?thesis
    unfolding re_match_sheet_def match_here_Lit[OF assms] match_after_tab_Lit[OF assms]
    by (subst sp) (auto simp: spec_fields_hd)
qed

lemma plain_number_no_tab: "plain_number n \<Longrightarrow> 9 \<notin> set n"
  by (auto simp: plain_number_def list_all_iff)

lemma find_line_plain:
  assumes "plain_number n"
  shows "\<forall>l \<in> set ls. 10 \<notin> set l \<Longrightarrow> find_line (map Lit n) k ls = spec_first_line n k ls"
proof (induction ls arbitrary: k)
  case Nil
  then show ?case by simp
next
  case (Cons l ls)
  have "re_match_sheet (map Lit n) l \<longleftrightarrow> n \<in> set (spec_fields l)"
    using re_match_sheet_Lit[OF plain_number_no_tab[OF assms]] Cons.prems by simp
  then show ?case using Cons by simp
qed

lemma first_match_plain:
  assumes "plain_number (SheetNumber doc s)" and "\<forall>l \<in> set sched. 10 \<notin> set l"
  shows "first_match doc sched s = spec_line_of doc sched s"
  using find_line_plain[OF assms(1) assms(2), of 0] plain_number_atoms[OF assms(1)]
  by (simp add: first_match_def spec_line_of_def)

section \<open>The result of the ordering\<close>

lemma order_facts:
  assumes ne: "fst (get_schedule_text_data file) \<noteq> []"
      and res: "order_sheets_by_schedule_data doc file ss = Inr out"
  shows "sorted_wrt (\<lambda>a b. \<exists>i j. first_match doc (fst (get_schedule_text_data file)) a = Some i \<and>
                              first_match doc (fst (get_schedule_text_data file)) b = Some j \<and> i < j) out"
    and "set out \<subseteq> {s \<in> set ss. first_match doc (fst (get_schedule_text_data file)) s \<noteq> None}"
    and "\<forall>s \<in> set ss. \<forall>k. first_match doc (fst (get_schedule_text_data file)) s = Some k \<longrightarrow>
           last (filter (\<lambda>t. first_match doc (fst (get_schedule_text_data file)) t = Some k) ss) \<in> set out"
    and "distinct out"
proof -
  let ?fm = "first_match doc (fst (get_schedule_text_data file))"
  let ?g = "\<lambda>k. last (filter (\<lambda>s. ?fm s = Some k) ss)"
  obtain ks where ks: "sorted_wrt (<) ks" "set ks = {k. \<exists>s \<in> set ss. ?fm s = Some k}"
    "out = map ?g ks"
    using order_result[OF ne res] by blast
  have g: "?g k \<in> set ss \<and> ?fm (?g k) = Some k" if "k \<in> set ks" for k
  proof -
    have "filter (\<lambda>s. ?fm s = Some k) ss \<noteq> []"
      using that ks(2) by (auto simp: filter_empty_conv)
    then have "?g k \<in> set (filter (\<lambda>s. ?fm s = Some k) ss)" by (rule last_in_set)
    then show ?thesis by simp
  qed
  have "sorted_wrt (\<lambda>x y. \<exists>i j. ?fm (?g x) = Some i \<and> ?fm (?g y) = Some j \<and> i < j) ks"
    by (rule sorted_wrt_mono_rel[OF _ ks(1)]) (use g in auto)
  then show "sorted_wrt (\<lambda>a b. \<exists>i j. ?fm a = Some i \<and> ?fm b = Some j \<and> i < j) out"
    unfolding ks(3) sorted_wrt_map .
  show "set out \<subseteq> {s \<in> set ss. ?fm s \<noteq> None}"
    using g by (auto simp: ks(3))
  show "\<forall>s \<in> set ss. \<forall>k. ?fm s = Some k \<longrightarrow> ?g k \<in> set out"
  proof (intro ballI allI impI)
    fix s k assume "s \<in> set ss" "?fm s = Some k"
    then have "k \<in> set ks" using ks(2) by auto
    then have "?g k \<in> ?g ` set ks" by (rule imageI)
    then show "?g k \<in> set out" by (simp only: ks(3) set_map)
  qed
  have "inj_on ?g (set ks)"
  proof (rule inj_onI)
    fix x y assume xy: "x \<in> set ks" "y \<in> set ks" "?g x = ?g y"
    have "?fm (?g x) = Some x" "?fm (?g y) = Some y" using g xy(1,2) by blast+
    then show "x = y" using xy(3) by (metis option.inject)
  qed
  moreover have "distinct ks" using ks(1) by (simp add: strict_sorted_iff)
  ultimately show "distinct out" by (simp add: ks(3) distinct_map)
qed

lemma shorter_when_dropped:
  assumes "distinct out" and "set out \<subseteq> set ss" and "s \<in> set ss" and "s \<notin> set out"
  shows "length out < length ss"
proof -
  have "length out = card (set out)" using assms(1) by (simp add: distinct_card)
  also have "\<dots> < card (set ss)"
    using assms(2,3,4) by (intro psubset_card_mono) auto
  also have "\<dots> \<le> length ss" by (rule card_length)
  finally show ?thesis .
qed

text \<open>
  C5. When opening the exported file raises, the read operation logs an error and
  returns the empty list, and the ordering returns the input list as it is: no error
  reaches the caller.
\<close>

theorem read_failure_keeps_sheet_list:
  "get_schedule_text_data None =
     ([], [LogError ''Error opening sheet index export: %s | %s'']) \<and>
   order_sheets_by_schedule_data doc None sheets_in = Inr sheets_in"
  by (simp add: get_schedule_text_data_def order_sheets_by_schedule_data_def)

text \<open>
  C7. With a schedule text that is not empty, the ordering returns only sheets of the
  input whose number matches some line, each once; a sheet of the input that matches no
  line is not in the result, which is then shorter than the input. This is for sheet
  numbers the model of the pattern reads (no special character but the dot), for which
  the ordering does return.
\<close>

theorem order_keeps_only_matching_sheets:
  assumes "fst (get_schedule_text_data file) \<noteq> []"
      and "\<forall>s \<in> set ss. number_atoms (SheetNumber doc s) \<noteq> None"
  shows "\<exists>out. order_sheets_by_schedule_data doc file ss = Inr out \<and>
           set out \<subseteq> {s \<in> set ss. matches_some_line doc (fst (get_schedule_text_data file)) s} \<and>
           distinct out \<and>
           (\<forall>s \<in> set ss. \<not> matches_some_line doc (fst (get_schedule_text_data file)) s \<longrightarrow>
              s \<notin> set out \<and> length out < length ss)"
proof -
  obtain out where out: "order_sheets_by_schedule_data doc file ss = Inr out"
    using order_total[OF assms(2)] by blast
  note f = order_facts[OF assms(1) out]
  have sub: "set out \<subseteq> {s \<in> set ss. matches_some_line doc (fst (get_schedule_text_data file)) s}"
    using f(2) first_match_matches by blast
  have "\<forall>s \<in> set ss. \<not> matches_some_line doc (fst (get_schedule_text_data file)) s \<longrightarrow>
              s \<notin> set out \<and> length out < length ss"
  proof (intro ballI impI)
    fix s assume s: "s \<in> set ss" "\<not> matches_some_line doc (fst (get_schedule_text_data file)) s"
    then have n: "s \<notin> set out" using sub by auto
    have "set out \<subseteq> set ss" using sub by auto
    from shorter_when_dropped[OF f(4) this s(1) n] n
    show "s \<notin> set out \<and> length out < length ss" by simp
  qed
  then show ?thesis using out sub f(4) by blast
qed

lemma dot_in_number_matches_any_character:
  "number_atoms (ustr ''A1.00'') = Some [Lit 65, Lit 49, AnyChar, Lit 48, Lit 48] \<and>
   re_match_sheet [Lit 65, Lit 49, AnyChar, Lit 48, Lit 48] (ustr ''A1x00'') \<and>
   ustr ''A1.00'' \<notin> set (spec_fields (ustr ''A1x00''))"
  by (simp add: ustr_def regex_special_def re_match_sheet_def match_here_def)

text \<open>
  C3, as amended. For sheet numbers that are plain (no special character of the regular
  expression syntax, no tab) and schedule lines without a line feed inside, the ordering
  returns; with no schedule data it returns the input list as it is; otherwise the result
  is in strictly ascending order of the first line that has the number of the sheet among
  its tab-delimited fields, holds only sheets of the input that have such a line, and for
  every such line holds the last sheet of the input whose first line it is. When no two
  sheets of the input share their first line, the result holds exactly the sheets that
  have one.
\<close>

theorem order_by_first_line_of_plain_numbers:
  assumes "\<forall>s \<in> set ss. plain_number (SheetNumber doc s)"
      and "\<forall>l \<in> set (fst (get_schedule_text_data file)). 10 \<notin> set l"
  shows "\<exists>out. order_sheets_by_schedule_data doc file ss = Inr out \<and>
          (fst (get_schedule_text_data file) = [] \<longrightarrow> out = ss) \<and>
          (fst (get_schedule_text_data file) \<noteq> [] \<longrightarrow>
             sorted_wrt (\<lambda>a b. \<exists>i j.
                 spec_line_of doc (fst (get_schedule_text_data file)) a = Some i \<and>
                 spec_line_of doc (fst (get_schedule_text_data file)) b = Some j \<and> i < j) out \<and>
             set out \<subseteq> {s \<in> set ss. spec_line_of doc (fst (get_schedule_text_data file)) s \<noteq> None} \<and>
             (\<forall>s \<in> set ss. \<forall>k. spec_line_of doc (fst (get_schedule_text_data file)) s = Some k \<longrightarrow>
                last (filter (\<lambda>t. spec_line_of doc (fst (get_schedule_text_data file)) t = Some k) ss)
                  \<in> set out) \<and>
             (inj_on (spec_line_of doc (fst (get_schedule_text_data file)))
                 {s \<in> set ss. spec_line_of doc (fst (get_schedule_text_data file)) s \<noteq> None} \<longrightarrow>
                set out = {s \<in> set ss. spec_line_of doc (fst (get_schedule_text_data file)) s \<noteq> None}))"
proof -
  let ?sched = "fst (get_schedule_text_data file)"
  let ?fm = "first_match doc ?sched"
  let ?L = "spec_line_of doc ?sched"
  have sup: "\<forall>s \<in> set ss. number_atoms (SheetNumber doc s) \<noteq> None"
    using assms(1) plain_number_atoms by fastforce
  obtain out where out: "order_sheets_by_schedule_data doc file ss = Inr out"
    using order_total[OF sup] by blast
  have eq: "?fm s = ?L s" if "s \<in> set ss" for s
    using first_match_plain[of doc s ?sched] assms that by blast
  show ?thesis
  proof (cases "?sched = []")
    case True
    then have "out = ss" using out by (simp add: order_sheets_by_schedule_data_def)
    then show ?thesis using out True by blast
  next
    case False
    note f = order_facts[OF False out]
    have sub: "set out \<subseteq> set ss" using f(2) by auto
    have a: "sorted_wrt (\<lambda>a b. \<exists>i j. ?L a = Some i \<and> ?L b = Some j \<and> i < j) out"
    proof (rule sorted_wrt_mono_rel[OF _ f(1)])
      fix x y assume "x \<in> set out" "y \<in> set out"
        "\<exists>i j. ?fm x = Some i \<and> ?fm y = Some j \<and> i < j"
      then show "\<exists>i j. ?L x = Some i \<and> ?L y = Some j \<and> i < j"
        using eq[of x] eq[of y] sub by (metis subsetD)
    qed
    have b: "set out \<subseteq> {s \<in> set ss. ?L s \<noteq> None}"
    proof
      fix x assume x: "x \<in> set out"
      then have "x \<in> set ss" "?fm x \<noteq> None" using f(2) by auto
      then show "x \<in> {s \<in> set ss. ?L s \<noteq> None}" using eq[of x] by simp
    qed
    have fl: "filter (\<lambda>t. ?L t = Some k) ss = filter (\<lambda>t. ?fm t = Some k) ss" for k
      by (rule filter_cong[OF refl]) (simp add: eq)
    have c: "\<forall>s \<in> set ss. \<forall>k. ?L s = Some k \<longrightarrow> last (filter (\<lambda>t. ?L t = Some k) ss) \<in> set out"
    proof (intro ballI allI impI)
      fix s k assume s: "s \<in> set ss" "?L s = Some k"
      then have "?fm s = Some k" using eq[of s] by simp
      then have "last (filter (\<lambda>t. ?fm t = Some k) ss) \<in> set out" using f(3) s(1) by blast
      then show "last (filter (\<lambda>t. ?L t = Some k) ss) \<in> set out" by (simp only: fl)
    qed
    have d: "inj_on ?L {s \<in> set ss. ?L s \<noteq> None} \<longrightarrow> set out = {s \<in> set ss. ?L s \<noteq> None}"
    proof
      assume inj: "inj_on ?L {s \<in> set ss. ?L s \<noteq> None}"
      have "{s \<in> set ss. ?L s \<noteq> None} \<subseteq> set out"
      proof
        fix s assume "s \<in> {s \<in> set ss. ?L s \<noteq> None}"
        then obtain k where s: "s \<in> set ss" "?L s = Some k" by auto
        let ?t = "last (filter (\<lambda>t. ?L t = Some k) ss)"
        have ne: "filter (\<lambda>t. ?L t = Some k) ss \<noteq> []"
          using s by (auto simp: filter_empty_conv)
        have "?t \<in> set (filter (\<lambda>t. ?L t = Some k) ss)" using ne by (rule last_in_set)
        then have t: "?t \<in> set ss" "?L ?t = Some k" by auto
        have "?t = s"
          using inj t s by (auto dest!: inj_onD[where x = ?t and y = s])
        moreover have "?t \<in> set out" using c s by blast
        ultimately show "s \<in> set out" by simp
      qed
      then show "set out = {s \<in> set ss. ?L s \<noteq> None}" using b by blast
    qed
    show ?thesis using out False a b c d by blast
  qed
qed

lemmas index_eval = order_sheets_by_schedule_data_def get_schedule_text_data_def strip_def
  isspace_def index_doc_def index_lines_def index_lines_shared_def ustr_def regex_special_def
  re_match_sheet_def match_here_def

lemma index_lines_order:
  "order_sheets_by_schedule_data index_doc index_lines [1, 2, 3] = Inr [2, 1]"
  by (simp add: index_eval)

text \<open>
  The claim C3 as it is worded fails on the index whose only line has A1 and A2 in two
  fields: of the sheets A1, A2 and C9 only A2 is returned, though A1 has a line with its
  number too, so the result is no arrangement of the input sheets.
\<close>

theorem order_drops_sheets_counterexample:
  "order_sheets_by_schedule_data index_doc index_lines_shared [1, 2, 3] = Inr [2] \<and>
   spec_line_of index_doc (fst (get_schedule_text_data index_lines_shared)) 1 = Some 0 \<and>
   \<not> spec_arranged index_doc (fst (get_schedule_text_data index_lines_shared)) [1, 2, 3] [2]"
proof (intro conjI)
  show "order_sheets_by_schedule_data index_doc index_lines_shared [1, 2, 3] = Inr [2]"
    by (simp add: index_eval)
  show "spec_line_of index_doc (fst (get_schedule_text_data index_lines_shared)) 1 = Some 0"
    by (simp add: spec_line_of_def index_eval)
  have "mset [2::nat] \<noteq> mset [1, 2, 3]"
    using mset_eq_length[of "[2::nat]" "[1, 2, 3]"] by auto
  then show "\<not> spec_arranged index_doc (fst (get_schedule_text_data index_lines_shared)) [1, 2, 3] [2]"
    by (simp add: spec_arranged_def)
qed

theorem order_by_first_line_of_plain_numbers_witness:
  "plain_number (SheetNumber index_doc 1) \<and>
   plain_number (SheetNumber index_doc 2) \<and>
   plain_number (SheetNumber index_doc 3) \<and>
   10 \<notin> set (concat (fst (get_schedule_text_data index_lines))) \<and>
   fst (get_schedule_text_data index_lines) \<noteq> [] \<and>
   order_sheets_by_schedule_data index_doc index_lines [1, 2, 3] = Inr [2, 1] \<and>
   spec_line_of index_doc (fst (get_schedule_text_data index_lines)) 2 = Some 1 \<and>
   spec_line_of index_doc (fst (get_schedule_text_data index_lines)) 1 = Some 2 \<and>
   spec_line_of index_doc (fst (get_schedule_text_data index_lines)) 3 = None"
proof -
  have h1: "\<forall>s \<in> set [1, 2, 3]. plain_number (SheetNumber index_doc s)"
    by (simp add: plain_number_def index_eval)
  have h2: "\<forall>l \<in> set (fst (get_schedule_text_data index_lines)). 10 \<notin> set l"
    by (simp add: index_eval)
  have h3: "fst (get_schedule_text_data index_lines) \<noteq> []"
    by (simp add: index_eval)
  have l: "spec_line_of index_doc (fst (get_schedule_text_data index_lines)) 2 = Some 1"
    "spec_line_of index_doc (fst (get_schedule_text_data index_lines)) 1 = Some 2"
    "spec_line_of index_doc (fst (get_schedule_text_data index_lines)) 3 = None"
    by (simp_all add: spec_line_of_def index_eval)
  have p: "plain_number (SheetNumber index_doc 1)" "plain_number (SheetNumber index_doc 2)"
    "plain_number (SheetNumber index_doc 3)"
    using h1 by simp_all
  have n: "10 \<notin> set (concat (fst (get_schedule_text_data index_lines)))"
    using h2 by auto
  show ?thesis
    using order_by_first_line_of_plain_numbers[OF h1 h2] p n h3 index_lines_order l
    by (intro conjI)
qed

theorem order_keeps_only_matching_sheets_witness:
  "fst (get_schedule_text_data index_lines) \<noteq> [] \<and>
   number_atoms (SheetNumber index_doc 1) \<noteq> None \<and>
   number_atoms (SheetNumber index_doc 2) \<noteq> None \<and>
   number_atoms (SheetNumber index_doc 3) \<noteq> None \<and>
   \<not> matches_some_line index_doc (fst (get_schedule_text_data index_lines)) 3 \<and>
   (\<exists>out. order_sheets_by_schedule_data index_doc index_lines [1, 2, 3] = Inr out \<and>
          3 \<notin> set out \<and> length out < length [1, 2, 3::nat] \<and> distinct out)"
proof -
  have h1: "fst (get_schedule_text_data index_lines) \<noteq> []"
    by (simp add: index_eval)
  have h2: "\<forall>s \<in> set [1, 2, 3]. number_atoms (SheetNumber index_doc s) \<noteq> None"
    by (simp add: index_eval)
  have h3: "\<not> matches_some_line index_doc (fst (get_schedule_text_data index_lines)) 3"
    by (simp add: matches_some_line_def index_eval)
  obtain out where out:
    "order_sheets_by_schedule_data index_doc index_lines [1, 2, 3] = Inr out"
    "distinct out"
    "\<forall>s \<in> set [1, 2, 3]. \<not> matches_some_line index_doc (fst (get_schedule_text_data index_lines)) s \<longrightarrow>
              s \<notin> set out \<and> length out < length [1, 2, 3::nat]"
    using order_keeps_only_matching_sheets[OF h1 h2] by blast
  have "3 \<notin> set out \<and> length out < length [1, 2, 3::nat]"
    using out(3) h3 by simp
  then have "\<exists>out. order_sheets_by_schedule_data index_doc index_lines [1, 2, 3] = Inr out \<and>
          3 \<notin> set out \<and> length out < length [1, 2, 3::nat] \<and> distinct out"
    using out(1,2) by (intro exI[of _ out]) simp
  moreover have "number_atoms (SheetNumber index_doc 1) \<noteq> None"
    "number_atoms (SheetNumber index_doc 2) \<noteq> None"
    "number_atoms (SheetNumber index_doc 3) \<noteq> None"
    using h2 by simp_all
  ultimately show ?thesis using h1 h3 by (intro conjI)
qed

section \<open>Facts about traces and scopes\<close>

lemma unscoped_append:
  "unscoped g d (xs @ ys) = unscoped g d xs @ unscoped g (scope_depth g d xs) ys"
  by (induction g d xs rule: unscoped.induct) auto

lemma scope_depth_append:
  "scope_depth g d (xs @ ys) = scope_depth g (scope_depth g d xs) ys"
  by (induction g d xs rule: scope_depth.induct) auto

lemma unscoped_calls:
  "unscoped g d (map (\<lambda>t. Call (c t)) ts) = (if d = 0 then map c ts else [])"
  by (induction ts) auto

lemma scope_depth_calls [simp]:
  "scope_depth g d (map (\<lambda>t. Call (c t)) ts) = d"
  by (induction ts) auto

lemma fix_sheet_numbers_trace:
  "trace (fst (fix_sheet_numbers idx ts (doc, ss, ons))) =
     trace doc @ map (\<lambda>t. Call (SetSheetNumber (revit_sheet t))) ts"
  by (induction ts arbitrary: idx doc ss ons) (auto simp: set_SheetNumber_def emit_def)

lemma restore_sheet_numbers_trace:
  "trace (restore_sheet_numbers zs doc) =
     trace doc @ map (\<lambda>z. Call (SetSheetNumber (revit_sheet (fst z)))) zs"
  by (induction zs arbitrary: doc) (auto simp: set_SheetNumber_def emit_def)

lemma combined_fix_trace:
  assumes "combined_fix_sheet_numbers ts doc = (doc1, sheet_set, ons)"
  shows "trace doc1 =
     trace doc @ TransactionEnter ''Fix Sheet Numbers'' #
       map (\<lambda>t. Call (SetSheetNumber (revit_sheet t))) ts @ [TransactionExit]"
proof -
  let ?d = "emit (TransactionEnter ''Fix Sheet Numbers'') doc"
  have "doc1 = emit TransactionExit (fst (fix_sheet_numbers 0 ts (?d, [], [])))"
    using assms by (auto simp: combined_fix_sheet_numbers_def split: prod.splits)
  then show ?thesis
    using fix_sheet_numbers_trace[of 0 ts ?d "[]" "[]"] by (simp add: emit_def)
qed

lemma print_loop_trace:
  "\<exists>cs. trace (snd (print_loop env fmt ps ts doc)) = trace doc @ map (\<lambda>c. Call c) cs \<and>
        set cs \<subseteq> {SetPrintToFileName, SubmitPrint} \<union> (if ps then {SetCurrentPrintSetting} else {})"
proof (induction ts arbitrary: doc)
  case Nil
  have "trace doc = trace doc @ map (\<lambda>c. Call c) []" by simp
  then show ?case by (metis (no_types) print_loop.simps(1) snd_conv empty_subsetI list.set(1))
next
  case (Cons t ts)
  show ?case
  proof (cases "printable t")
    case False
    then show ?thesis using Cons.IH[of doc] by simp
  next
    case True
    show ?thesis
    proof (cases "output_fname env fmt t")
      case (Inl e)
      have "trace doc = trace doc @ map (\<lambda>c. Call c) []" by simp
      then show ?thesis using True Inl
        by (metis (no_types, lifting) print_loop.simps(2) old.sum.simps(5) snd_conv
            empty_subsetI list.set(1))
    next
      case (Inr f)
      let ?d = "do_SubmitPrint_view (revit_sheet t)
                  ((if ps then set_CurrentPrintSetting (sheet_print_settings t) else id)
                     (set_PrintToFileName (op_join env (USER_DESKTOP env) f) doc))"
      obtain cs where cs: "trace (snd (print_loop env fmt ps ts ?d)) = trace ?d @ map (\<lambda>c. Call c) cs"
        "set cs \<subseteq> {SetPrintToFileName, SubmitPrint} \<union> (if ps then {SetCurrentPrintSetting} else {})"
        using Cons.IH[of ?d] by blast
      let ?pre = "SetPrintToFileName # (if ps then [SetCurrentPrintSetting] else []) @ [SubmitPrint]"
      have d: "trace ?d = trace doc @ map (\<lambda>c. Call c) ?pre"
        by (simp add: host_call_defs)
      have "trace (snd (print_loop env fmt ps (t # ts) doc)) =
              trace doc @ map (\<lambda>c. Call c) (?pre @ cs)"
        using True Inr cs(1) d by simp
      moreover have "set (?pre @ cs) \<subseteq>
           {SetPrintToFileName, SubmitPrint} \<union> (if ps then {SetCurrentPrintSetting} else {})"
        using cs(2) by auto
      ultimately show ?thesis by blast
    qed
  qed
qed

lemma cleanup_trace:
  "trace (cleanup_sheetnumbers doc) =
     trace doc @ TransactionEnter ''Cleanup Sheet Numbers'' #
       map (\<lambda>s. Call (SetSheetNumber s)) (sheets doc) @ [TransactionExit]"
proof -
  have "trace (foldl cleanup_step d ss) = trace d @ map (\<lambda>s. Call (SetSheetNumber s)) ss" for d ss
    by (induction ss arbitrary: d) (auto simp: cleanup_step_def set_SheetNumber_def emit_def)
  then show ?thesis by (simp add: cleanup_sheetnumbers_def emit_def)
qed

lemma unguarded_after_calls [simp]:
  "unscoped g (Suc d) (map (\<lambda>t. Call (c t)) ts @ es) = unscoped g (Suc d) es"
  "scope_depth g d (map (\<lambda>t. Call (c t)) ts @ es) = scope_depth g d es"
  by (simp_all add: unscoped_append scope_depth_append unscoped_calls)

lemma cleanup_scoped:
  "\<exists>evs. trace (cleanup_sheetnumbers doc) = trace doc @ evs \<and>
         scope_depth False 0 evs = 0 \<and> unguarded evs = []"
  by (simp add: cleanup_trace unguarded_def)

lemma combined_scoped:
  "\<exists>evs. trace (snd (print_combined_sheets_in_order env self ts doc)) = trace doc @ evs \<and>
         scope_depth False 0 evs = 0 \<and> unguarded evs = []"
proof (cases "has_print_manager env")
  case False
  then show ?thesis
    by (simp add: print_combined_sheets_in_order_def Let_def emit_def unguarded_def)
next
  case True
  let ?A = "combined_set_printer_settings self (emit (GroupEnter ''Print Sheets in Order'') doc)"
  obtain doc1 sheet_set ons where f: "combined_fix_sheet_numbers ts ?A = (doc1, sheet_set, ons)"
    by (cases "combined_fix_sheet_numbers ts ?A") auto
  have t1: "trace doc1 =
     trace doc @ GroupEnter ''Print Sheets in Order'' # TransactionEnter ''Set Printer Settings'' #
       Call SetCurrentPrintSetting # Call SelectNewPrintDriver # Call SetPrintRange #
       TransactionExit # TransactionEnter ''Fix Sheet Numbers'' #
       map (\<lambda>t. Call (SetSheetNumber (revit_sheet t))) ts @ [TransactionExit]"
    using combined_fix_trace[OF f]
    by (simp add: combined_set_printer_settings_def host_call_defs)
  show ?thesis
  proof (cases "viewset_fault env")
    case NoFault
    then show ?thesis using True f t1
      by (cases "combined_file_fault env"; cases "ViewSheetSets doc1 sheetsetname")
         (simp_all add: print_combined_sheets_in_order_def Let_def combined_submit_and_restore_def
            combined_remove_previous_def host_call_defs restore_sheet_numbers_trace
            unguarded_def)
  next
    case ViewsFault
    then show ?thesis using True f t1
      by (cases "ViewSheetSets doc1 sheetsetname")
         (simp_all add: print_combined_sheets_in_order_def Let_def
            combined_remove_previous_def host_call_defs unguarded_def)
  next
    case SaveAsFault
    then show ?thesis using True f t1
      by (cases "ViewSheetSets doc1 sheetsetname")
         (simp_all add: print_combined_sheets_in_order_def Let_def
            combined_remove_previous_def host_call_defs unguarded_def)
  qed
qed

lemma filter_none: "(\<And>x. x \<in> set xs \<Longrightarrow> \<not> P x) \<Longrightarrow> filter P xs = []"
  by (induction xs) auto

lemma individual_scoped:
  "\<exists>evs. trace (snd (print_sheets_in_order env self ts doc)) = trace doc @ evs \<and>
         scope_depth False 0 evs = 0 \<and> unguarded evs = []"
proof (cases "has_print_manager env")
  case False
  then show ?thesis by (simp add: print_sheets_in_order_def unguarded_def)
next
  case True
  let ?ps = "allows_variable_paper (selected_print_setting self)"
  let ?d1 = "emit (DryTransactionEnter ''Set Printer Settings'') (set_PrintToFile True doc)"
  let ?d2 = "if \<not> ?ps
             then set_CurrentPrintSetting (print_settings (selected_print_setting self)) ?d1
             else ?d1"
  let ?d3 = "set_PrintRange Current (do_SelectNewPrintDriver (selected_printer self) ?d2)"
  obtain cs where cs:
    "trace (snd (print_loop env (selected_naming_format self) ?ps ts ?d3)) =
       trace ?d3 @ map (\<lambda>c. Call c) cs"
    using print_loop_trace[of env "selected_naming_format self" ?ps ts ?d3] by blast
  have "trace (snd (print_sheets_in_order env self ts doc)) =
          trace (snd (print_loop env (selected_naming_format self) ?ps ts ?d3)) @ [DryTransactionExit]"
    using True by (simp add: print_sheets_in_order_def Let_def emit_def split: prod.splits)
  then show ?thesis using cs
    by (cases ?ps) (simp_all add: host_call_defs unguarded_def)
qed

lemma linked_scoped:
  "\<exists>evs. trace (snd (print_linked_sheets_in_order env self ts doc)) = trace doc @ evs \<and>
         scope_depth False 0 evs = 0 \<and>
         filter writes_sheets (unscoped False 0 evs) = [] \<and>
         set (unguarded evs) \<subseteq> {SelectNewPrintDriver, SetPrintRange}"
proof (cases "has_print_manager env")
  case False
  then show ?thesis by (simp add: print_linked_sheets_in_order_def unguarded_def)
next
  case True
  let ?d = "set_PrintRange Current
             (do_SelectNewPrintDriver (selected_printer self) (set_PrintToFile True doc))"
  obtain cs where cs:
    "trace (snd (print_loop env (selected_naming_format self) False ts ?d)) =
       trace ?d @ map (\<lambda>c. Call c) cs"
    "set cs \<subseteq> {SetPrintToFileName, SubmitPrint}"
    using print_loop_trace[of env "selected_naming_format self" False ts ?d] by auto
  have r: "trace (snd (print_linked_sheets_in_order env self ts doc)) =
          trace doc @ Call SetPrintToFile # Call SelectNewPrintDriver # Call SetPrintRange #
            map (\<lambda>c. Call c) cs"
    using True cs(1) by (simp add: print_linked_sheets_in_order_def print_linked_loop_eq host_call_defs)
  have a: "\<forall>c \<in> set cs. \<not> writes_sheets c \<and> \<not> sets_printer c"
    using cs(2) by auto
  show ?thesis
    unfolding r using a by (auto simp: unguarded_def unscoped_calls filter_empty_conv)
qed

lemma reset_trace:
  "\<exists>R. trace (snd (reset_psettings env self d)) = trace d @ map (\<lambda>c. Call c) R \<and>
       set R \<subseteq> (if init_psettings self = None then {} else {SetCurrentPrintSetting})"
proof (cases "init_psettings self")
  case None
  have "trace d = trace d @ map (\<lambda>c. Call c) []" by simp
  then show ?thesis using None by (simp add: reset_psettings_def)
next
  case (Some p)
  show ?thesis
  proof (cases "has_print_manager env")
    case False
    then show ?thesis using Some by (simp add: reset_psettings_def)
  next
    case True
    have "trace (snd (reset_psettings env self d)) = trace d @ map (\<lambda>c. Call c) [SetCurrentPrintSetting]"
      using True Some by (simp add: reset_psettings_def host_call_defs)
    moreover have "set [SetCurrentPrintSetting] \<subseteq>
        (if init_psettings self = None then {} else {SetCurrentPrintSetting})"
      using Some by simp
    ultimately show ?thesis by blast
  qed
qed

lemma then_reset:
  assumes t: "trace (snd r) = trace doc @ evs"
      and d: "scope_depth False 0 evs = 0"
      and w: "filter writes_sheets (unscoped False 0 evs) = []"
      and u: "set (unguarded evs) \<subseteq> S"
  shows "\<exists>evs'. trace (snd (case r of (Some e, doc') \<Rightarrow> (Some e, doc')
                                    | (None, doc') \<Rightarrow> reset_psettings env self doc')) =
                 trace doc @ evs' \<and>
               filter writes_sheets (unscoped False 0 evs') = [] \<and>
               set (unguarded evs') \<subseteq>
                 S \<union> (if init_psettings self = None then {} else {SetCurrentPrintSetting})"
proof (cases r)
  case (Pair x doc')
  show ?thesis
  proof (cases x)
    case (Some e)
    then show ?thesis using Pair t w u by auto
  next
    case None
    obtain R where R: "trace (snd (reset_psettings env self doc')) = trace doc' @ map (\<lambda>c. Call c) R"
       "set R \<subseteq> (if init_psettings self = None then {} else {SetCurrentPrintSetting})"
      using reset_trace[of env self doc'] by blast
    have tr: "trace (snd (reset_psettings env self doc')) = trace doc @ (evs @ map (\<lambda>c. Call c) R)"
      using R(1) t Pair by simp
    have un: "unscoped False 0 (evs @ map (\<lambda>c. Call c) R) = unscoped False 0 evs @ R"
      by (simp add: unscoped_append d unscoped_calls)
    have nw: "filter writes_sheets R = []"
      using R(2) by (auto simp: filter_empty_conv split: if_splits)
    have a: "filter writes_sheets (unscoped False 0 (evs @ map (\<lambda>c. Call c) R)) = []"
      by (simp add: un w nw)
    have b: "set (unguarded (evs @ map (\<lambda>c. Call c) R)) \<subseteq>
          S \<union> (if init_psettings self = None then {} else {SetCurrentPrintSetting})"
      using u R(2) by (auto simp: unguarded_def un)
    show ?thesis using Pair None tr a b by auto
  qed
qed

lemma unguarded_no_writes:
  "unguarded evs = [] \<Longrightarrow> filter writes_sheets (unscoped False 0 evs) = []"
  by (auto simp: unguarded_def filter_empty_conv)

lemma print_sheets_scoped:
  "\<exists>evs. trace (snd (print_sheets env self doc)) = trace doc @ evs \<and>
         filter writes_sheets (unscoped False 0 evs) = [] \<and>
         set (unguarded evs) \<subseteq>
           (if \<not> combine_print self \<and> IsLinked doc
            then {SelectNewPrintDriver, SetPrintRange} else {}) \<union>
           (if init_psettings self = None then {} else {SetCurrentPrintSetting})"
proof -
  let ?S = "if \<not> combine_print self \<and> IsLinked doc
            then {SelectNewPrintDriver, SetPrintRange} else {}"
  define ts where "ts = (if selected_sheets self \<noteq> [] \<and> answer_only_selected env
             then selected_sheets self else sheet_list self)"
  define r where "r = (if combine_print self
            then print_combined_sheets_in_order env self ts doc
            else if IsLinked doc
            then print_linked_sheets_in_order env self ts doc
            else print_sheets_in_order env self ts doc)"
  have idle: "\<exists>evs. trace doc = trace doc @ evs \<and>
         filter writes_sheets (unscoped False 0 evs) = [] \<and>
         set (unguarded evs) \<subseteq> ?S \<union>
           (if init_psettings self = None then {} else {SetCurrentPrintSetting})"
    by (intro exI[of _ "[]"]) (simp add: unguarded_def)
  have "\<exists>evs. trace (snd r) = trace doc @ evs \<and> scope_depth False 0 evs = 0 \<and>
         filter writes_sheets (unscoped False 0 evs) = [] \<and> set (unguarded evs) \<subseteq> ?S"
  proof (cases "combine_print self")
    case True
    obtain evs where e: "trace (snd (print_combined_sheets_in_order env self ts doc)) = trace doc @ evs"
      "scope_depth False 0 evs = 0" "unguarded evs = []"
      using combined_scoped[of env self ts doc] by blast
    have "r = print_combined_sheets_in_order env self ts doc" using True by (simp add: r_def)
    then show ?thesis using e unguarded_no_writes[OF e(3)] by (intro exI[of _ evs]) simp
  next
    case False
    show ?thesis
    proof (cases "IsLinked doc")
      case True
      have "r = print_linked_sheets_in_order env self ts doc" using False True by (simp add: r_def)
      then show ?thesis using False True linked_scoped[of env self ts doc] by simp
    next
      case nl: False
      obtain evs where e: "trace (snd (print_sheets_in_order env self ts doc)) = trace doc @ evs"
        "scope_depth False 0 evs = 0" "unguarded evs = []"
        using individual_scoped[of env self ts doc] by blast
      have "r = print_sheets_in_order env self ts doc" using False nl by (simp add: r_def)
      then show ?thesis using e unguarded_no_writes[OF e(3)] by (intro exI[of _ evs]) simp
    qed
  qed
  then obtain evs where evs: "trace (snd r) = trace doc @ evs" "scope_depth False 0 evs = 0"
         "filter writes_sheets (unscoped False 0 evs) = []" "set (unguarded evs) \<subseteq> ?S"
    by blast
  note tr = then_reset[OF evs, of env self]
  have unfold: "print_sheets env self doc =
     (if sheet_list self = [] then (None, doc)
      else if \<not> combine_print self \<and> length ts > 5 \<and> \<not> answer_print_individually env
      then (None, doc)
      else (case r of (Some e, doc') \<Rightarrow> (Some e, doc')
                    | (None, doc') \<Rightarrow> reset_psettings env self doc'))"
    unfolding print_sheets_def Let_def ts_def r_def ..
  show ?thesis
  proof (cases "sheet_list self = [] \<or>
                (\<not> combine_print self \<and> length ts > 5 \<and> \<not> answer_print_individually env)")
    case True
    then have "print_sheets env self doc = (None, doc)"
      unfolding unfold by (cases "sheet_list self = []") simp_all
    then have e: "trace (snd (print_sheets env self doc)) = trace doc" by simp
    show ?thesis unfolding e by (rule idle)
  next
    case False
    then have e: "print_sheets env self doc =
        (case r of (Some e, doc') \<Rightarrow> (Some e, doc')
                  | (None, doc') \<Rightarrow> reset_psettings env self doc')"
      unfolding unfold by auto
    show ?thesis unfolding e by (rule tr)
  qed
qed

section \<open>Transactions around the writes\<close>

lemmas demo_defs = demo_env_def demo_window_def demo_window_single_def demo_doc_def
  demo_linked_doc_def demo_targets_def demo_format_def

lemma linked_unguarded:
  "\<exists>evs. trace (snd (print_linked_sheets_in_order env self ts doc)) = trace doc @ evs \<and>
         filter writes_sheets (unscoped False 0 evs) = [] \<and>
         unguarded evs =
           (if has_print_manager env then [SelectNewPrintDriver, SetPrintRange] else [])"
proof (cases "has_print_manager env")
  case False
  then show ?thesis by (simp add: print_linked_sheets_in_order_def unguarded_def)
next
  case True
  let ?d = "set_PrintRange Current
             (do_SelectNewPrintDriver (selected_printer self) (set_PrintToFile True doc))"
  obtain cs where cs:
    "trace (snd (print_loop env (selected_naming_format self) False ts ?d)) =
       trace ?d @ map (\<lambda>c. Call c) cs"
    "set cs \<subseteq> {SetPrintToFileName, SubmitPrint}"
    using print_loop_trace[of env "selected_naming_format self" False ts ?d] by auto
  have r: "trace (snd (print_linked_sheets_in_order env self ts doc)) =
          trace doc @ Call SetPrintToFile # Call SelectNewPrintDriver # Call SetPrintRange #
            map (\<lambda>c. Call c) cs"
    using True cs(1) by (simp add: print_linked_sheets_in_order_def print_linked_loop_eq host_call_defs)
  have a: "\<forall>c \<in> set cs. \<not> writes_sheets c \<and> \<not> sets_printer c"
    using cs(2) by auto
  then have f: "filter writes_sheets cs = []"
    "filter (\<lambda>c. writes_sheets c \<or> sets_printer c) cs = []"
    by (simp_all add: filter_empty_conv)
  show ?thesis
    unfolding r using True f by (simp add: unguarded_def unscoped_calls)
qed

lemma demo_linked_trace:
  "trace (snd (print_linked_sheets_in_order demo_env demo_window_single demo_targets
                 demo_linked_doc)) =
     [Call SetPrintToFile, Call SelectNewPrintDriver, Call SetPrintRange,
      Call SetPrintToFileName, Call SubmitPrint]"
  by (simp add: print_linked_sheets_in_order_def Let_def
      output_fname_def py_format_def lookup_field_def prepend_def
      ustr_def str_replace_same host_call_defs demo_defs)

text \<open>
  The claim C6 as it is worded fails on the print of a linked document: the routine opens
  no scope at all, and selects the print driver and sets the print range on the way to
  printing the one printable row.
\<close>

theorem linked_print_outside_transaction_counterexample:
  "unscoped True 0
     (trace (snd (print_linked_sheets_in_order demo_env demo_window_single demo_targets
                    demo_linked_doc))) =
     [SetPrintToFile, SelectNewPrintDriver, SetPrintRange, SetPrintToFileName, SubmitPrint] \<and>
   sets_printer SelectNewPrintDriver \<and> sets_printer SetPrintRange"
  by (simp add: demo_linked_trace)

text \<open>
  C6, as amended. Every write of a sheet number and every change of the view-sheet sets
  is made inside a transaction: in the shift-click cleanup, in the combined print (the
  marking and restoring of the numbers, the deletion and saving of the ordered print
  set) and in the whole handler of the print button. The combined print and the print
  sheet by sheet also set print setting, driver and range inside a transaction. The
  print of a linked document, on which the source notes that no transaction can be used,
  selects the print driver and sets the print range with no transaction open, whenever
  it has a print manager, and makes no other call of these kinds.
\<close>

theorem sheet_writes_inside_transactions:
  "(\<exists>evs. trace (cleanup_sheetnumbers doc) = trace doc @ evs \<and> unguarded evs = []) \<and>
   (\<exists>evs. trace (snd (print_combined_sheets_in_order env self ts doc)) = trace doc @ evs \<and>
          unguarded evs = []) \<and>
   (\<exists>evs. trace (snd (print_sheets_in_order env self ts doc)) = trace doc @ evs \<and>
          unguarded evs = []) \<and>
   (\<exists>evs. trace (snd (print_linked_sheets_in_order env self ts doc)) = trace doc @ evs \<and>
          filter writes_sheets (unscoped False 0 evs) = [] \<and>
          unguarded evs =
            (if has_print_manager env then [SelectNewPrintDriver, SetPrintRange] else [])) \<and>
   (\<exists>evs. trace (snd (print_sheets env self doc)) = trace doc @ evs \<and>
          filter writes_sheets (unscoped False 0 evs) = [])"
proof (intro conjI)
  show "\<exists>evs. trace (cleanup_sheetnumbers doc) = trace doc @ evs \<and> unguarded evs = []"
    using cleanup_scoped[of doc] by blast
  show "\<exists>evs. trace (snd (print_combined_sheets_in_order env self ts doc)) = trace doc @ evs \<and>
          unguarded evs = []"
    using combined_scoped[of env self ts doc] by blast
  show "\<exists>evs. trace (snd (print_sheets_in_order env self ts doc)) = trace doc @ evs \<and>
          unguarded evs = []"
    using individual_scoped[of env self ts doc] by blast
  show "\<exists>evs. trace (snd (print_linked_sheets_in_order env self ts doc)) = trace doc @ evs \<and>
          filter writes_sheets (unscoped False 0 evs) = [] \<and>
          unguarded evs =
            (if has_print_manager env then [SelectNewPrintDriver, SetPrintRange] else [])"
    by (rule linked_unguarded)
  obtain evs where "trace (snd (print_sheets env self doc)) = trace doc @ evs"
    "filter writes_sheets (unscoped False 0 evs) = []"
    using print_sheets_scoped[of env self doc] by blast
  then show "\<exists>evs. trace (snd (print_sheets env self doc)) = trace doc @ evs \<and>
          filter writes_sheets (unscoped False 0 evs) = []"
    by (intro exI[of _ evs]) simp
qed

theorem sheet_writes_inside_transactions_witness:
  "has_print_manager demo_env \<and>
   unguarded (trace (cleanup_sheetnumbers demo_doc)) = [] \<and>
   unguarded (trace (snd (print_combined_sheets_in_order demo_env demo_window demo_targets demo_doc)))
     = [] \<and>
   unguarded (trace (snd (print_sheets_in_order demo_env demo_window demo_targets demo_doc))) = [] \<and>
   unguarded (trace (snd (print_linked_sheets_in_order demo_env demo_window_single demo_targets
                            demo_linked_doc))) = [SelectNewPrintDriver, SetPrintRange] \<and>
   filter writes_sheets
     (unscoped False 0 (trace (snd (print_sheets demo_env demo_window demo_doc)))) = []"
proof -
  note t = sheet_writes_inside_transactions[of demo_doc demo_env demo_window demo_targets]
  note u = sheet_writes_inside_transactions[of demo_linked_doc demo_env demo_window_single
             demo_targets]
  have pm: "has_print_manager demo_env" by (simp add: demo_env_def)
  have e: "trace demo_doc = []" "trace demo_linked_doc = []"
    by (simp_all add: demo_doc_def demo_linked_doc_def)
  have a: "unguarded (trace (cleanup_sheetnumbers demo_doc)) = []"
    using t[THEN conjunct1] unfolding e by auto
  have b: "unguarded (trace (snd (print_combined_sheets_in_order demo_env demo_window demo_targets demo_doc))) = []"
    using t[THEN conjunct2, THEN conjunct1] unfolding e by auto
  have c: "unguarded (trace (snd (print_sheets_in_order demo_env demo_window demo_targets demo_doc))) = []"
    using t[THEN conjunct2, THEN conjunct2, THEN conjunct1] unfolding e by auto
  have d: "unguarded (trace (snd (print_linked_sheets_in_order demo_env demo_window_single demo_targets
                            demo_linked_doc))) = [SelectNewPrintDriver, SetPrintRange]"
    using u[THEN conjunct2, THEN conjunct2, THEN conjunct2, THEN conjunct1] pm
    unfolding e by auto
  have f: "filter writes_sheets
     (unscoped False 0 (trace (snd (print_sheets demo_env demo_window demo_doc)))) = []"
    using t[THEN conjunct2, THEN conjunct2, THEN conjunct2, THEN conjunct2] unfolding e by auto
  show ?thesis using pm a b c d f by (intro conjI)
qed

text \<open>
  The trace of the print button on the two rows, with the combine option. Its last call
  is the one of \<open>_reset_psettings\<close>, which puts the print setting back after the
  transaction group has been left; the source itself notes, in the routine for linked
  documents, that setting the print setting needs a transaction. The theorems of this
  section say nothing about that call.
\<close>

lemma demo_print_button_trace:
  "trace (snd (print_sheets demo_env demo_window demo_doc)) =
     [GroupEnter ''Print Sheets in Order'',
      TransactionEnter ''Set Printer Settings'', Call SetCurrentPrintSetting,
      Call SelectNewPrintDriver, Call SetPrintRange, TransactionExit,
      TransactionEnter ''Fix Sheet Numbers'', Call (SetSheetNumber 2),
      Call (SetSheetNumber 1), TransactionExit,
      TransactionEnter ''Remove Previous Print Set'', TransactionExit,
      TransactionEnter ''Update Ordered Print Set'', Call SetViews,
      Call SaveAsViewSheetSet, TransactionExit, Call SetPrintOrderReverse,
      Call SetCombinedFile, Call SetPrintToFile, Call SetPrintToFileName,
      Call ApplyPrintManager, Call SubmitPrint,
      TransactionEnter ''Restore Sheet Numbers'', Call (SetSheetNumber 2),
      Call (SetSheetNumber 1), TransactionExit, GroupExit,
      Call SetCurrentPrintSetting]"
  by (simp add: print_sheets_def print_combined_sheets_in_order_def Let_def
      combined_set_printer_settings_def combined_fix_sheet_numbers_def
      combined_remove_previous_def combined_submit_and_restore_def reset_psettings_def
      sheetsetname_def viewset_insert_def host_call_defs demo_defs)

section \<open>The marked numbers in code point order\<close>

text \<open>
  Under the comparison by code points, a number with fewer marks comes before one with
  more, when the number under the fewer marks is empty or starts below U+200E. A number
  that starts with a left-over mark, or with a code point above it, is not covered.
\<close>

lemma marks_ascend:
  "i < j \<Longrightarrow> (case a of [] \<Rightarrow> True | c # cs \<Rightarrow> c < 8206) \<Longrightarrow>
   spec_ordinal_less (replicate i 8206 @ a) (replicate j 8206 @ b)"
proof (induction i arbitrary: j)
  case 0
  then obtain k where "j = Suc k" by (cases j) auto
  then show ?case using 0 by (cases a) auto
next
  case (Suc i)
  then obtain k where k: "j = Suc k" "i < k" by (cases j) auto
  then show ?case using Suc.IH[OF k(2) Suc.prems(2)] by simp
qed

lemma marked_numbers_ascend:
  "i < j \<Longrightarrow> (case a of [] \<Rightarrow> True | c # cs \<Rightarrow> c < 8206) \<Longrightarrow>
   spec_ordinal_less (str_mul NPC (i + 1) @ a) (str_mul NPC (j + 1) @ b)"
  using marks_ascend[of "i + 1" "j + 1" a b] by (simp add: str_mul_NPC)

end
